theory Spec2Isabelle
  imports Complex_Main "HOL-Library.Product_Lexorder"
begin

section \<open>Python values used by the engine\<close>

text \<open>Exceptions of the source that the model makes explicit.\<close>

datatype error = AssertionError | ValueError | KeyError | IndexError

text \<open>\<^verbatim>\<open>s.endswith(t)\<close> on Python strings.\<close>

definition endswith :: "string \<Rightarrow> string \<Rightarrow> bool" where
  "endswith s t = (length t \<le> length s \<and> drop (length s - length t) s = t)"

text \<open>
  The slices \<^verbatim>\<open>xs[:n]\<close> and \<^verbatim>\<open>xs[n:]\<close> and the subscript \<^verbatim>\<open>xs[i]\<close> for a Python
  integer: a negative bound counts from the end and is clamped at the start of the
  list, a subscript out of range raises \<^verbatim>\<open>IndexError\<close>. \<^verbatim>\<open>-0\<close> is \<open>0\<close>, so
  \<^verbatim>\<open>xs[:-0]\<close> is \<^verbatim>\<open>xs[:0]\<close>, the empty list.
\<close>

definition slice_to :: "int \<Rightarrow> 'a list \<Rightarrow> 'a list" where
  "slice_to n xs = (if 0 \<le> n then take (nat n) xs else take (length xs - nat (- n)) xs)"

definition slice_from :: "int \<Rightarrow> 'a list \<Rightarrow> 'a list" where
  "slice_from n xs = (if 0 \<le> n then drop (nat n) xs else drop (length xs - nat (- n)) xs)"

definition subscript :: "'a list \<Rightarrow> int \<Rightarrow> error + 'a" where
  "subscript xs i =
     (if 0 \<le> i \<and> i < int (length xs) then Inr (xs ! nat i)
      else if i < 0 \<and> - int (length xs) \<le> i then Inr (xs ! nat (int (length xs) + i))
      else Inl IndexError)"

text \<open>
  \<^verbatim>\<open>xs.sort(key=f, reverse=True)\<close>: descending by key and stable, entries with equal
  keys keep their order (\<open>sort_key\<close> is a stable insertion sort).
\<close>

definition sort_desc :: "('a \<Rightarrow> real) \<Rightarrow> 'a list \<Rightarrow> 'a list" where
  "sort_desc f xs = sort_key (\<lambda>x. - f x) xs"

section \<open>Sequences and sampling parameters\<close>

datatype SequenceStatus =
    WAITING | RUNNING | SWAPPED
  | FINISHED_STOPPED | FINISHED_LENGTH_CAPPED | FINISHED_ABORTED | FINISHED_IGNORED

fun status_is_finished :: "SequenceStatus \<Rightarrow> bool" where
  "status_is_finished FINISHED_STOPPED = True"
| "status_is_finished FINISHED_LENGTH_CAPPED = True"
| "status_is_finished FINISHED_ABORTED = True"
| "status_is_finished FINISHED_IGNORED = True"
| "status_is_finished _ = False"

text \<open>
  Modelled from the spec: the class \<^verbatim>\<open>Sequence\<close> of \<^verbatim>\<open>vllm.sequence\<close> is not among
  the sources. The record holds the attributes the engine reads and writes: the token
  ids (prompt, then generated), the cumulative logprob, the status, the detokenizer
  state and the flag \<^verbatim>\<open>prompt_processing_finished\<close>. A sequence object is addressed by
  its \<^verbatim>\<open>seq_id\<close> in the store of the engine state below, so the id is the key of the
  store and not a field.
\<close>

record Sequence =
  prompt_token_ids :: "int list"
  output_token_ids :: "int list"
  cumulative_logprob :: real
  status :: SequenceStatus
  tokens :: "string list option"
  prefix_offset :: nat
  read_offset :: nat
  output_text :: string
  prompt_processing_finished :: bool

definition get_token_ids :: "Sequence \<Rightarrow> int list" where
  "get_token_ids seq = prompt_token_ids seq @ output_token_ids seq"

definition get_len :: "Sequence \<Rightarrow> nat" where
  "get_len seq = length (get_token_ids seq)"

definition get_prompt_len :: "Sequence \<Rightarrow> nat" where
  "get_prompt_len seq = length (prompt_token_ids seq)"

definition get_output_len :: "Sequence \<Rightarrow> nat" where
  "get_output_len seq = length (output_token_ids seq)"

text \<open>The last token id; \<open>None\<close> for a sequence that holds no token at all.\<close>

definition get_last_token_id :: "Sequence \<Rightarrow> int option" where
  "get_last_token_id seq =
     (case rev (get_token_ids seq) of [] \<Rightarrow> None | t # _ \<Rightarrow> Some t)"

definition is_finished :: "Sequence \<Rightarrow> bool" where
  "is_finished seq = status_is_finished (status seq)"

definition set_status :: "SequenceStatus \<Rightarrow> Sequence \<Rightarrow> Sequence" where
  "set_status st seq = seq\<lparr>status := st\<rparr>"

text \<open>
  \<^verbatim>\<open>early_stopping\<close> is typed \<^verbatim>\<open>Union[bool, str]\<close>: the engine tests it with
  \<^verbatim>\<open>is True\<close>, \<^verbatim>\<open>is False\<close> and \<^verbatim>\<open>== "never"\<close>.
\<close>

datatype EarlyStopping = ES_Bool bool | ES_Str string

record SamplingParams =
  best_of :: int
  use_beam_search :: bool
  length_penalty :: real
  early_stopping :: EarlyStopping
  stop :: "string list"
  ignore_eos :: bool
  max_tokens :: int

text \<open>One sampled token, as a worker returns it (\<^verbatim>\<open>SequenceOutputs\<close>).\<close>

record SequenceOutputs =
  parent_seq_id :: nat
  output_token :: int
  logprobs :: "(int \<times> real) list"
  probs :: "real list option"

type_synonym SamplerOutput = "SequenceOutputs list list"

section \<open>The engine's collaborators\<close>

text \<open>
  The tokenizer, the scheduler configuration and the methods of \<^verbatim>\<open>Sequence\<close> that
  compute on floats or on the tokenizer are not among the sources; the engine takes
  them as given. \<open>get_beam_search_score env seq length_penalty eos seq_len\<close> is
  \<^verbatim>\<open>seq.get_beam_search_score(length_penalty, eos_token_id, seq_len)\<close>, with
  \<open>seq_len = None\<close> where the source omits the argument. Scores are reals: the
  source's floats are assumed free of NaN.
\<close>

record EngineEnv =
  eos_token_id :: int
  max_model_len :: int
  replica_id :: int
  detokenize_incrementally ::
    "int list \<Rightarrow> string list option \<Rightarrow> nat \<Rightarrow> nat \<Rightarrow> string list \<times> string \<times> nat \<times> nat"
  get_beam_search_score :: "Sequence \<Rightarrow> real \<Rightarrow> int \<Rightarrow> int option \<Rightarrow> real"
  append_token_id :: "Sequence \<Rightarrow> SequenceOutputs \<Rightarrow> nat \<Rightarrow> Sequence"

section \<open>Detokenization and the stop check\<close>

definition decode_sequence :: "EngineEnv \<Rightarrow> Sequence \<Rightarrow> Sequence" where
  "decode_sequence env seq =
     (case detokenize_incrementally env (get_token_ids seq) (tokens seq)
             (prefix_offset seq) (read_offset seq) of
        (new_tokens, new_output_text, prefix_offset', read_offset') \<Rightarrow>
          seq\<lparr>tokens := (case tokens seq of None \<Rightarrow> Some new_tokens
                          | Some ts \<Rightarrow> Some (ts @ new_tokens)),
              prefix_offset := prefix_offset',
              read_offset := read_offset',
              output_text := output_text seq @ new_output_text\<rparr>)"

text \<open>
  The loop over \<^verbatim>\<open>sampling_params.stop\<close>: \<open>Some\<close> is the sequence at the loop's
  \<^verbatim>\<open>return\<close>, \<open>None\<close> means the loop ran to its end.
\<close>

fun check_stop_strings :: "Sequence \<Rightarrow> string list \<Rightarrow> Sequence option" where
  "check_stop_strings seq [] = None"
| "check_stop_strings seq (stop_str # rest) =
     (if endswith (output_text seq) stop_str
      then Some (set_status FINISHED_STOPPED
                   (seq\<lparr>output_text :=
                          slice_to (- int (length stop_str)) (output_text seq)\<rparr>))
      else check_stop_strings seq rest)"

definition check_stop :: "EngineEnv \<Rightarrow> Sequence \<Rightarrow> SamplingParams \<Rightarrow> Sequence" where
  "check_stop env seq sampling_params =
     (case check_stop_strings seq (stop sampling_params) of
        Some seq' \<Rightarrow> seq'
      | None \<Rightarrow>
          if int (get_len seq) > max_model_len env
          then set_status FINISHED_LENGTH_CAPPED seq
          else if int (get_output_len seq) = max_tokens sampling_params
          then set_status FINISHED_LENGTH_CAPPED seq
          else if \<not> ignore_eos sampling_params
                  \<and> get_last_token_id seq = Some (eos_token_id env)
          then set_status FINISHED_STOPPED seq
          else seq)"

section \<open>Engine state, sequence groups and the scheduler's bookkeeping hooks\<close>

text \<open>
  The output processor calls the scheduler's hooks \<^verbatim>\<open>free_seq\<close>, \<^verbatim>\<open>fork_seq\<close> and
  \<^verbatim>\<open>free_finished_seq_groups\<close>; the scheduler and its block manager are not among the
  sources, so the state records the calls in the order they are issued.
\<close>

datatype SchedulerCall = FreeSeq nat | ForkSeq nat nat | FreeFinishedSeqGroups

text \<open>
  \<open>seqs\<close> is the store of \<^verbatim>\<open>Sequence\<close> objects, addressed by \<^verbatim>\<open>seq_id\<close>: the source
  mutates a parent in place while the pair list and the group both refer to it, and
  tests \<^verbatim>\<open>seq is parent\<close>; with ids drawn from \<open>seq_counter\<close> two objects are the same
  exactly when their ids are. \<open>reported_execution_times\<close> are the values handed to
  \<^verbatim>\<open>metrics_store.on_batch_end\<close>. Timers, logging and the other metrics are left out.
\<close>

record EngineState =
  seqs :: "nat \<Rightarrow> Sequence"
  seq_counter :: nat
  scheduler_calls :: "SchedulerCall list"
  reported_execution_times :: "real list"

text \<open>
  Modelled from the spec: the class \<^verbatim>\<open>SequenceGroup\<close> is not among the sources. A group
  holds its request id, its members (the keys of \<^verbatim>\<open>seqs_dict\<close>, in insertion order) and
  the sampling parameters; \<^verbatim>\<open>add\<close> puts a member in, \<^verbatim>\<open>remove\<close> takes one out.
\<close>

record SequenceGroup =
  request_id :: string
  seq_ids :: "nat list"
  sampling_params :: SamplingParams

definition get_seqs_with_status ::
    "EngineState \<Rightarrow> SequenceGroup \<Rightarrow> SequenceStatus \<Rightarrow> nat list" where
  "get_seqs_with_status st g s = filter (\<lambda>i. status (seqs st i) = s) (seq_ids g)"

definition get_finished_seqs :: "EngineState \<Rightarrow> SequenceGroup \<Rightarrow> nat list" where
  "get_finished_seqs st g = filter (\<lambda>i. is_finished (seqs st i)) (seq_ids g)"

definition group_add :: "nat \<Rightarrow> SequenceGroup \<Rightarrow> SequenceGroup" where
  "group_add i g = (if i \<in> set (seq_ids g) then g else g\<lparr>seq_ids := seq_ids g @ [i]\<rparr>)"

definition group_remove :: "nat \<Rightarrow> SequenceGroup \<Rightarrow> SequenceGroup" where
  "group_remove i g = g\<lparr>seq_ids := removeAll i (seq_ids g)\<rparr>"

definition update_seq :: "nat \<Rightarrow> (Sequence \<Rightarrow> Sequence) \<Rightarrow> EngineState \<Rightarrow> EngineState" where
  "update_seq i f st = st\<lparr>seqs := (seqs st)(i := f (seqs st i))\<rparr>"

definition scheduler_call :: "SchedulerCall \<Rightarrow> EngineState \<Rightarrow> EngineState" where
  "scheduler_call c st = st\<lparr>scheduler_calls := scheduler_calls st @ [c]\<rparr>"

section \<open>Beam search: the early-stopping test\<close>

definition check_beam_search_early_stopping ::
    "EngineEnv \<Rightarrow> EarlyStopping \<Rightarrow> SamplingParams \<Rightarrow> Sequence \<Rightarrow> Sequence \<Rightarrow> error + bool" where
  "check_beam_search_early_stopping env es sp best_running_seq current_worst_seq =
     (if \<not> use_beam_search sp then Inl AssertionError
      else if es = ES_Bool True then Inr True
      else
        let lp = length_penalty sp;
            current_worst_score =
              get_beam_search_score env current_worst_seq lp (eos_token_id env) None
        in if es = ES_Bool False
           then Inr (current_worst_score
                       \<ge> get_beam_search_score env best_running_seq lp (eos_token_id env) None)
           else if es \<noteq> ES_Str ''never'' then Inl AssertionError
           else if lp > 0
           then
             (let max_possible_length =
                    max (int (get_prompt_len best_running_seq) + max_tokens sp)
                        (max_model_len env)
              in Inr (current_worst_score
                        \<ge> get_beam_search_score env best_running_seq lp (eos_token_id env)
                            (Some max_possible_length)))
           else Inr (current_worst_score
                       \<ge> get_beam_search_score env best_running_seq lp (eos_token_id env) None))"

section \<open>The output processor\<close>

subsection \<open>Applying the samples to the parents\<close>

text \<open>
  The loop over \<^verbatim>\<open>child_samples[:-1]\<close>: each sample forks the parent under a fresh id
  (\<^verbatim>\<open>fork\<close> copies the parent) and appends its token to the copy.
\<close>

fun fork_children ::
    "EngineEnv \<Rightarrow> nat \<Rightarrow> nat \<Rightarrow> SequenceOutputs list \<Rightarrow> EngineState \<times> (nat \<times> nat) list
      \<Rightarrow> EngineState \<times> (nat \<times> nat) list" where
  "fork_children env parent chunk [] (st, child_seqs) = (st, child_seqs)"
| "fork_children env parent chunk (child_sample # rest) (st, child_seqs) =
     (let new_child_seq_id = seq_counter st;
          child = append_token_id env (seqs st parent) child_sample chunk;
          st' = st\<lparr>seqs := (seqs st)(new_child_seq_id := child),
                   seq_counter := Suc (seq_counter st)\<rparr>
      in fork_children env parent chunk rest (st', child_seqs @ [(new_child_seq_id, parent)]))"

text \<open>The loop over the parents; \<open>dict\<close> is \<^verbatim>\<open>parent_child_dict\<close>.\<close>

fun apply_samples ::
    "EngineEnv \<Rightarrow> nat \<Rightarrow> (nat \<Rightarrow> SequenceOutputs list) \<Rightarrow> nat list
      \<Rightarrow> EngineState \<times> SequenceGroup \<times> (nat \<times> nat) list
      \<Rightarrow> EngineState \<times> SequenceGroup \<times> (nat \<times> nat) list" where
  "apply_samples env chunk dict [] acc = acc"
| "apply_samples env chunk dict (parent # rest) (st, g, child_seqs) =
     (let child_samples = dict parent
      in if length child_samples = 0
         then apply_samples env chunk dict rest
                (scheduler_call (FreeSeq parent)
                   (update_seq parent (set_status FINISHED_ABORTED) st),
                 group_remove parent g, child_seqs)
         else
           (case fork_children env parent chunk (butlast child_samples) (st, child_seqs) of
              (st1, child_seqs1) \<Rightarrow>
                apply_samples env chunk dict rest
                  (update_seq parent
                     (\<lambda>seq. append_token_id env seq (last child_samples) chunk) st1,
                   g, child_seqs1 @ [(parent, parent)])))"

subsection \<open>Detokenizing and checking the children\<close>

fun decode_and_check ::
    "EngineEnv \<Rightarrow> SamplingParams \<Rightarrow> (nat \<times> nat) list \<Rightarrow> EngineState \<Rightarrow> EngineState" where
  "decode_and_check env sp [] st = st"
| "decode_and_check env sp ((seq, parent) # rest) st =
     (if \<not> prompt_processing_finished (seqs st seq)
      then decode_and_check env sp rest st
      else decode_and_check env sp rest
             (update_seq seq (\<lambda>s. check_stop env (decode_sequence env s) sp) st))"

subsection \<open>Telling the group and the block manager\<close>

text \<open>New children join the group and, unless finished, are forked in the block manager.\<close>

fun add_and_fork ::
    "(nat \<times> nat) list \<Rightarrow> EngineState \<times> SequenceGroup \<Rightarrow> EngineState \<times> SequenceGroup" where
  "add_and_fork [] acc = acc"
| "add_and_fork ((seq, parent) # rest) (st, g) =
     (if seq \<noteq> parent
      then add_and_fork rest
             (if \<not> is_finished (seqs st seq) then scheduler_call (ForkSeq parent seq) st else st,
              group_add seq g)
      else add_and_fork rest (st, g))"

text \<open>Finished parents that continue themselves are freed and stay in the group.\<close>

fun free_finished_parents :: "(nat \<times> nat) list \<Rightarrow> EngineState \<Rightarrow> EngineState" where
  "free_finished_parents [] st = st"
| "free_finished_parents ((seq, parent) # rest) st =
     (if seq = parent \<and> is_finished (seqs st seq)
      then free_finished_parents rest (scheduler_call (FreeSeq seq) st)
      else free_finished_parents rest st)"

text \<open>Unselected parents leave the group and are freed.\<close>

fun remove_unselected ::
    "(nat \<times> nat) list \<Rightarrow> EngineState \<times> SequenceGroup \<Rightarrow> EngineState \<times> SequenceGroup" where
  "remove_unselected [] acc = acc"
| "remove_unselected ((seq, parent) # rest) (st, g) =
     (if seq = parent
      then remove_unselected rest (scheduler_call (FreeSeq seq) st, group_remove seq g)
      else remove_unselected rest (st, g))"

subsection \<open>The beam-search branch\<close>

text \<open>
  An entry of \<^verbatim>\<open>all_finished_seqs\<close> is \<^verbatim>\<open>(seq, parent, is_new)\<close>, with \<^verbatim>\<open>parent = None\<close>
  for a sequence that had finished before this step.
\<close>

type_synonym FinishedEntry = "nat \<times> nat option \<times> bool"

definition beam_score :: "EngineEnv \<Rightarrow> EngineState \<Rightarrow> real \<Rightarrow> nat \<Rightarrow> real" where
  "beam_score env st lp seq = get_beam_search_score env (seqs st seq) lp (eos_token_id env) None"

text \<open>\<^verbatim>\<open>existing_finished_seqs + new_finished_seqs\<close>, before the sort.\<close>

definition finished_candidates ::
    "EngineState \<Rightarrow> nat list \<Rightarrow> (nat \<times> nat) list \<Rightarrow> FinishedEntry list" where
  "finished_candidates st existing_finished_seqs child_seqs =
     (let existing = map (\<lambda>seq. (seq, None, False)) existing_finished_seqs;
          new_finished_seqs =
            map (\<lambda>(seq, parent). (seq, Some parent, True))
              (filter (\<lambda>(seq, parent). is_finished (seqs st seq)) child_seqs)
      in existing @ new_finished_seqs)"

definition all_finished_seqs ::
    "EngineEnv \<Rightarrow> EngineState \<Rightarrow> real \<Rightarrow> nat list \<Rightarrow> (nat \<times> nat) list \<Rightarrow> FinishedEntry list" where
  "all_finished_seqs env st lp existing_finished_seqs child_seqs =
     sort_desc (\<lambda>x. beam_score env st lp (fst x))
       (finished_candidates st existing_finished_seqs child_seqs)"

text \<open>The loop over \<^verbatim>\<open>all_finished_seqs[:beam_width]\<close>.\<close>

fun select_new :: "FinishedEntry list \<Rightarrow> (nat \<times> nat) list" where
  "select_new [] = []"
| "select_new ((seq, Some parent, True) # rest) = (seq, parent) # select_new rest"
| "select_new (_ # rest) = select_new rest"

text \<open>The loop over \<^verbatim>\<open>all_finished_seqs[beam_width:]\<close>.\<close>

fun drop_low ::
    "FinishedEntry list \<Rightarrow> SequenceGroup \<times> (nat \<times> nat) list \<Rightarrow> SequenceGroup \<times> (nat \<times> nat) list" where
  "drop_low [] acc = acc"
| "drop_low ((seq, Some parent, True) # rest) (g, unselected) =
     drop_low rest (g, unselected @ [(seq, parent)])"
| "drop_low ((seq, None, True) # rest) (g, unselected) = drop_low rest (g, unselected)"
| "drop_low ((seq, parent, False) # rest) (g, unselected) =
     drop_low rest (group_remove seq g, unselected)"

definition running_child_seqs ::
    "EngineEnv \<Rightarrow> EngineState \<Rightarrow> real \<Rightarrow> (nat \<times> nat) list \<Rightarrow> (nat \<times> nat) list" where
  "running_child_seqs env st lp child_seqs =
     sort_desc (\<lambda>x. beam_score env st lp (fst x))
       (filter (\<lambda>(seq, parent). \<not> is_finished (seqs st seq)) child_seqs)"

definition stop_beam_search ::
    "EngineEnv \<Rightarrow> EngineState \<Rightarrow> SamplingParams \<Rightarrow> FinishedEntry list \<Rightarrow> (nat \<times> nat) list
      \<Rightarrow> error + bool" where
  "stop_beam_search env st sp all_finished running =
     (let beam_width = best_of sp
      in if length running = 0 then Inr True
         else if int (length all_finished) < beam_width then Inr False
         else
           (case subscript running 0 of Inl e \<Rightarrow> Inl e
            | Inr best_running \<Rightarrow>
           (case subscript all_finished (beam_width - 1) of Inl e \<Rightarrow> Inl e
            | Inr current_worst \<Rightarrow>
                check_beam_search_early_stopping env (early_stopping sp) sp
                  (seqs st (fst best_running)) (seqs st (fst current_worst)))))"

definition beam_branch ::
    "EngineEnv \<Rightarrow> EngineState \<Rightarrow> SequenceGroup \<Rightarrow> nat list \<Rightarrow> (nat \<times> nat) list
      \<Rightarrow> error + EngineState \<times> SequenceGroup" where
  "beam_branch env st g existing_finished_seqs child_seqs =
     (let sp = sampling_params g;
          beam_width = best_of sp;
          lp = length_penalty sp;
          all_finished = all_finished_seqs env st lp existing_finished_seqs child_seqs;
          selected = select_new (slice_to beam_width all_finished);
          (g1, unselected) = drop_low (slice_from beam_width all_finished) (g, []);
          running = running_child_seqs env st lp child_seqs
      in case stop_beam_search env st sp all_finished running of
           Inl e \<Rightarrow> Inl e
         | Inr stop_now \<Rightarrow>
             (let selected' = (if stop_now then selected
                               else selected @ slice_to beam_width running);
                  unselected' = (if stop_now then unselected @ running
                                 else unselected @ slice_from beam_width running);
                  (st2, g2) = add_and_fork selected' (st, g1);
                  st3 = free_finished_parents selected' st2
              in Inr (remove_unselected unselected' (st3, g2))))"

subsection \<open>One sequence group\<close>

text \<open>
  The first two loops over the parents and their children: the samples are applied,
  then every child whose prompt is processed is detokenized and checked. The result is
  the state, the group and the list \<^verbatim>\<open>child_seqs\<close> of \<^verbatim>\<open>(child, parent)\<close> pairs.
\<close>

definition apply_and_check ::
    "EngineEnv \<Rightarrow> EngineState \<Rightarrow> SequenceGroup \<Rightarrow> nat \<Rightarrow> SequenceOutputs list
      \<Rightarrow> EngineState \<times> SequenceGroup \<times> (nat \<times> nat) list" where
  "apply_and_check env st g prompt_chunk_len samples =
     (let parent_seqs = get_seqs_with_status st g RUNNING;
          parent_child_dict =
            (\<lambda>parent. filter (\<lambda>sample. parent_seq_id sample = parent) samples)
      in case apply_samples env prompt_chunk_len parent_child_dict parent_seqs (st, g, []) of
           (st1, g1, child_seqs) \<Rightarrow>
             (decode_and_check env (sampling_params g) child_seqs st1, g1, child_seqs))"

text \<open>
  \<^verbatim>\<open>_process_sequence_group_samples\<close>. A sample whose \<^verbatim>\<open>parent_seq_id\<close> is not a running
  member of the group raises \<^verbatim>\<open>KeyError\<close> when the samples are put into
  \<^verbatim>\<open>parent_child_dict\<close>, before anything is changed.
\<close>

definition process_sequence_group_samples ::
    "EngineEnv \<Rightarrow> EngineState \<Rightarrow> SequenceGroup \<Rightarrow> nat \<Rightarrow> SequenceOutputs list
      \<Rightarrow> error + EngineState \<times> SequenceGroup" where
  "process_sequence_group_samples env st g prompt_chunk_len samples =
     (let parent_seqs = get_seqs_with_status st g RUNNING;
          existing_finished_seqs = get_finished_seqs st g
      in if \<not> list_all (\<lambda>sample. parent_seq_id sample \<in> set parent_seqs) samples
         then Inl KeyError
         else
           (case apply_and_check env st g prompt_chunk_len samples of
              (st2, g1, child_seqs) \<Rightarrow>
                if \<not> use_beam_search (sampling_params g)
                then
                  (case add_and_fork child_seqs (st2, g1) of
                     (st3, g3) \<Rightarrow> Inr (free_finished_parents child_seqs st3, g3))
                else beam_branch env st2 g1 existing_finished_seqs child_seqs))"

section \<open>The per-step plan and the request outputs\<close>

text \<open>
  Modelled from the spec: \<^verbatim>\<open>SchedulerOutputs\<close> is not among the sources. The plan is
  empty iff it has no scheduled group and no block movement.
\<close>

record SchedulerOutputs =
  scheduled_seq_groups :: "SequenceGroup list"
  prompt_chunk_lens :: "nat list"
  blocks_to_swap_in :: "(nat \<times> nat) list"
  blocks_to_swap_out :: "(nat \<times> nat) list"
  blocks_to_copy :: "(nat \<times> nat list) list"
  ignored_seq_groups :: "SequenceGroup list"
  num_batched_prompt_tokens :: nat
  num_batched_output_tokens :: nat

definition is_empty :: "SchedulerOutputs \<Rightarrow> bool" where
  "is_empty so =
     (scheduled_seq_groups so = [] \<and> blocks_to_swap_in so = []
      \<and> blocks_to_swap_out so = [] \<and> blocks_to_copy so = [])"

text \<open>
  Modelled from the spec: \<^verbatim>\<open>RequestOutput\<close> is not among the sources. An output holds
  the request id, one entry for every member of the group and the flag that all members
  are finished.
\<close>

record CompletionOutput =
  co_seq_id :: nat
  co_text :: string
  co_token_ids :: "int list"
  co_cumulative_logprob :: real
  co_finish_reason :: "SequenceStatus option"

record RequestOutput =
  ro_request_id :: string
  ro_outputs :: "CompletionOutput list"
  ro_finished :: bool

definition from_seq_group :: "EngineState \<Rightarrow> SequenceGroup \<Rightarrow> RequestOutput" where
  "from_seq_group st g =
     \<lparr>ro_request_id = request_id g,
      ro_outputs =
        map (\<lambda>i. \<lparr>co_seq_id = i,
                   co_text = output_text (seqs st i),
                   co_token_ids = output_token_ids (seqs st i),
                   co_cumulative_logprob = cumulative_logprob (seqs st i),
                   co_finish_reason =
                     (if is_finished (seqs st i) then Some (status (seqs st i)) else None)\<rparr>)
          (seq_ids g),
      ro_finished = list_all (\<lambda>i. is_finished (seqs st i)) (seq_ids g)\<rparr>"

section \<open>Processing the model outputs of a step\<close>

text \<open>
  The loop over \<^verbatim>\<open>zip(scheduled_seq_groups, prompt_chunk_lens, output)\<close>: it ends with
  the shortest of the three lists, and groups beyond it stay as they are.
\<close>

fun process_groups ::
    "EngineEnv \<Rightarrow> EngineState \<Rightarrow> SequenceGroup list \<Rightarrow> nat list \<Rightarrow> SamplerOutput
      \<Rightarrow> error + EngineState \<times> SequenceGroup list" where
  "process_groups env st (g # gs) (prompt_chunk_len # cs) (samples # out) =
     (case process_sequence_group_samples env st g prompt_chunk_len samples of
        Inl e \<Rightarrow> Inl e
      | Inr (st', g') \<Rightarrow>
          (case process_groups env st' gs cs out of
             Inl e \<Rightarrow> Inl e
           | Inr (st'', gs') \<Rightarrow> Inr (st'', g' # gs')))"
| "process_groups env st gs cs out = Inr (st, gs)"

definition process_model_outputs ::
    "EngineEnv \<Rightarrow> EngineState \<Rightarrow> SamplerOutput \<Rightarrow> SchedulerOutputs
      \<Rightarrow> error + RequestOutput list \<times> EngineState" where
  "process_model_outputs env st output so =
     (case process_groups env st (scheduled_seq_groups so) (prompt_chunk_lens so) output of
        Inl e \<Rightarrow> Inl e
      | Inr (st1, groups) \<Rightarrow>
          (let st2 = scheduler_call FreeFinishedSeqGroups st1;
               request_outputs = map (from_seq_group st2) (groups @ ignored_seq_groups so)
           in Inr (request_outputs, st2)))"

section \<open>The worker fan-out\<close>

text \<open>
  A worker is a handle of some type \<open>'w\<close>; a method call returns the worker's answer
  and the worker after the call. \<open>'m\<close> is \<^verbatim>\<open>SequenceGroupMetadata\<close>, which the engine
  only passes on.
\<close>

record CacheConfig =
  block_size :: int
  gpu_memory_utilization :: real
  swap_space_bytes :: int
  num_gpu_blocks :: "int option"
  num_cpu_blocks :: "int option"

record ('w, 'm) WorkerMethods =
  init_model :: "int \<Rightarrow> 'w \<Rightarrow> unit \<times> 'w"
  get_gpu_id :: "'w \<Rightarrow> int \<times> 'w"
  profile_num_available_blocks :: "int \<Rightarrow> real \<Rightarrow> int \<Rightarrow> 'w \<Rightarrow> (int \<times> int) \<times> 'w"
  init_cache_engine :: "CacheConfig \<Rightarrow> 'w \<Rightarrow> unit \<times> 'w"
  execute_model ::
    "'m list \<Rightarrow> (nat \<times> nat) list \<Rightarrow> (nat \<times> nat) list \<Rightarrow> (nat \<times> nat list) list \<Rightarrow> 'w
      \<Rightarrow> (SamplerOutput \<times> real) \<times> 'w"

datatype 'r WorkerResults = AllOutputs "'r list" | SameOutput 'r

text \<open>
  \<^verbatim>\<open>_run_workers\<close>: the given method runs on every worker; with \<^verbatim>\<open>get_all_outputs\<close> the list
  of answers is returned, without it the answers must all equal the first, which is
  returned. The second component is the workers after their calls.
\<close>

definition run_workers ::
    "('w \<Rightarrow> 'r \<times> 'w) \<Rightarrow> bool \<Rightarrow> 'w list \<Rightarrow> (error + 'r WorkerResults) \<times> 'w list" where
  "run_workers worker_method get_all_outputs workers =
     (let results = map worker_method workers;
          all_outputs = map fst results;
          workers' = map snd results
      in if get_all_outputs then (Inr (AllOutputs all_outputs), workers')
         else
           (case all_outputs of
              [] \<Rightarrow> (Inl IndexError, workers')
            | output # others \<Rightarrow>
                if list_all (\<lambda>other_output. output = other_output) others
                then (Inr (SameOutput output), workers')
                else (Inl AssertionError, workers')))"

section \<open>One decoding iteration\<close>

definition schedule_step ::
    "EngineState \<Rightarrow> 'm list \<times> SchedulerOutputs \<Rightarrow> 'm list \<times> SchedulerOutputs \<times> RequestOutput list" where
  "schedule_step st plan =
     (case plan of (seq_group_metadata_list, scheduler_outputs) \<Rightarrow>
        (seq_group_metadata_list, scheduler_outputs,
         map (from_seq_group st) (ignored_seq_groups scheduler_outputs)))"

text \<open>
  \<open>plan\<close> is what \<^verbatim>\<open>self.scheduler.schedule()\<close> returns. The result is the list of
  request outputs or the exception, with the workers and the engine state the call
  leaves; after an exception of the output processor the state is the one before
  processing (the exception is fatal to the engine).
\<close>

definition step ::
    "('w, 'm) WorkerMethods \<Rightarrow> EngineEnv \<Rightarrow> 'm list \<times> SchedulerOutputs \<Rightarrow> 'w list \<Rightarrow> EngineState
      \<Rightarrow> (error + RequestOutput list) \<times> 'w list \<times> EngineState" where
  "step wm env plan workers st =
     (case schedule_step st plan of (seq_group_metadata_list, scheduler_outputs, ignored) \<Rightarrow>
        if is_empty scheduler_outputs then (Inr ignored, workers, st)
        else
          (case run_workers
                  (execute_model wm seq_group_metadata_list
                     (blocks_to_swap_in scheduler_outputs)
                     (blocks_to_swap_out scheduler_outputs)
                     (blocks_to_copy scheduler_outputs))
                  True workers of
             (Inl e, workers') \<Rightarrow> (Inl e, workers', st)
           | (Inr (SameOutput r), workers') \<Rightarrow> (Inl ValueError, workers', st)
           | (Inr (AllOutputs worker_outputs), workers') \<Rightarrow>
               if worker_outputs = [] then (Inl ValueError, workers', st)
               else
                 (let outputs = map fst worker_outputs;
                      model_execution_times = map snd worker_outputs
                  in if \<not> list_all (\<lambda>output. output = hd outputs) outputs
                     then (Inl AssertionError, workers', st)
                     else
                       (let output = hd outputs;
                            model_execution_time = Min (set model_execution_times)
                        in case process_model_outputs env st output scheduler_outputs of
                             Inl e \<Rightarrow> (Inl e, workers', st)
                           | Inr (request_outputs, st') \<Rightarrow>
                               (Inr (request_outputs @ ignored), workers',
                                st'\<lparr>reported_execution_times :=
                                      reported_execution_times st' @ [model_execution_time]\<rparr>)))))"

section \<open>Start-up: workers, rendezvous id and cache\<close>

text \<open>
  \<^verbatim>\<open>random.randint(a, b)\<close> returns an integer \<open>N\<close> with \<open>a \<le> N \<le> b\<close>. The model takes
  the integer drawn as an argument; \<open>randint_returns a b r\<close> says that \<open>r\<close> is a
  possible draw.
\<close>

definition randint_returns :: "int \<Rightarrow> int \<Rightarrow> int \<Rightarrow> bool" where
  "randint_returns a b r = (a \<le> r \<and> r \<le> b)"

definition rendezvous_id :: "EngineEnv \<Rightarrow> int \<Rightarrow> int" where
  "rendezvous_id env r = r + replica_id env"

definition is_uint32 :: "int \<Rightarrow> bool" where
  "is_uint32 x = (0 \<le> x \<and> x < 2 ^ 32)"

text \<open>
  \<^verbatim>\<open>_init_workers\<close>: \<open>worker\<close> is the worker the constructor \<^verbatim>\<open>Worker(...)\<close> returns and
  \<open>r\<close> the integer drawn by \<^verbatim>\<open>random.randint(0, 2**32 - 1)\<close>.
\<close>

definition init_workers ::
    "('w, 'm) WorkerMethods \<Rightarrow> EngineEnv \<Rightarrow> int \<Rightarrow> 'w \<Rightarrow> int \<Rightarrow> (error + unit) \<times> 'w list" where
  "init_workers wm env world_size worker r =
     (if world_size \<noteq> 1 then (Inl AssertionError, [])
      else
        (case run_workers (init_model wm (rendezvous_id env r)) True [worker] of
           (Inl e, workers') \<Rightarrow> (Inl e, workers')
         | (Inr outs, workers') \<Rightarrow> (Inr (), workers')))"

text \<open>
  \<^verbatim>\<open>_check_consecutive_gpu_allocation\<close>, on the path where the workers are remote: the
  sorted ids must be the range from the smallest to the largest.
\<close>

definition check_consecutive_gpu_allocation ::
    "('w, 'm) WorkerMethods \<Rightarrow> 'w list \<Rightarrow> (error + unit) \<times> 'w list" where
  "check_consecutive_gpu_allocation wm workers =
     (case run_workers (get_gpu_id wm) True workers of
        (Inl e, workers') \<Rightarrow> (Inl e, workers')
      | (Inr (SameOutput i), workers') \<Rightarrow> (Inl ValueError, workers')
      | (Inr (AllOutputs gpu_ids), workers') \<Rightarrow>
          if gpu_ids = [] then (Inl ValueError, workers')
          else if [Min (set gpu_ids)..Max (set gpu_ids)] = sort gpu_ids
          then (Inr (), workers')
          else (Inl AssertionError, workers'))"

text \<open>
  \<^verbatim>\<open>_init_workers_ray\<close> from the point where the remote workers exist and are
  initialized (creating them is the cluster's part): the GPU ids are checked, then the
  rendezvous id is drawn and handed to \<^verbatim>\<open>init_model\<close> on every worker.
\<close>

definition init_workers_ray ::
    "('w, 'm) WorkerMethods \<Rightarrow> EngineEnv \<Rightarrow> 'w list \<Rightarrow> int \<Rightarrow> (error + unit) \<times> 'w list" where
  "init_workers_ray wm env workers r =
     (case check_consecutive_gpu_allocation wm workers of
        (Inl e, workers1) \<Rightarrow> (Inl e, workers1)
      | (Inr u, workers1) \<Rightarrow>
          (case run_workers (init_model wm (rendezvous_id env r)) True workers1 of
             (Inl e, workers2) \<Rightarrow> (Inl e, workers2)
           | (Inr outs, workers2) \<Rightarrow> (Inr (), workers2)))"

text \<open>
  \<^verbatim>\<open>_init_cache\<close>: the result is the cache configuration the engine holds afterwards, or
  the exception, and the workers after the calls they received.
\<close>

definition init_cache ::
    "('w, 'm) WorkerMethods \<Rightarrow> CacheConfig \<Rightarrow> 'w list \<Rightarrow> (error + CacheConfig) \<times> 'w list" where
  "init_cache wm cache_config workers =
     (case run_workers
             (profile_num_available_blocks wm (block_size cache_config)
                (gpu_memory_utilization cache_config) (swap_space_bytes cache_config))
             True workers of
        (Inl e, workers1) \<Rightarrow> (Inl e, workers1)
      | (Inr (SameOutput b), workers1) \<Rightarrow> (Inl ValueError, workers1)
      | (Inr (AllOutputs num_blocks), workers1) \<Rightarrow>
          if num_blocks = [] then (Inl ValueError, workers1)
          else
            (let num_gpu_blocks' = Min (set (map fst num_blocks));
                 num_cpu_blocks' = Min (set (map snd num_blocks))
             in if num_gpu_blocks' \<le> 0 then (Inl ValueError, workers1)
                else
                  (let cache_config' = cache_config\<lparr>num_gpu_blocks := Some num_gpu_blocks',
                                                     num_cpu_blocks := Some num_cpu_blocks'\<rparr>
                   in case run_workers (init_cache_engine wm cache_config') False workers1 of
                        (Inl e, workers2) \<Rightarrow> (Inl e, workers2)
                      | (Inr u, workers2) \<Rightarrow> (Inr cache_config', workers2))))"

section \<open>Reading the scheduler calls and the stop strings\<close>

text \<open>\<open>forks_precede_frees\<close>: no \<^verbatim>\<open>free_seq\<close> call stands before a \<^verbatim>\<open>fork_seq\<close> call.\<close>

fun is_fork :: "SchedulerCall \<Rightarrow> bool" where
  "is_fork (ForkSeq parent child) = True"
| "is_fork _ = False"

fun is_free :: "SchedulerCall \<Rightarrow> bool" where
  "is_free (FreeSeq seq) = True"
| "is_free _ = False"

fun forks_precede_frees :: "SchedulerCall list \<Rightarrow> bool" where
  "forks_precede_frees [] = True"
| "forks_precede_frees (c # cs) =
     (if is_free c then list_all (\<lambda>d. \<not> is_fork d) cs else forks_precede_frees cs)"

text \<open>The calls that processing one group issues, in order (none when it raises).\<close>

definition issued_calls ::
    "EngineEnv \<Rightarrow> EngineState \<Rightarrow> SequenceGroup \<Rightarrow> nat \<Rightarrow> SequenceOutputs list \<Rightarrow> SchedulerCall list" where
  "issued_calls env st g prompt_chunk_len samples =
     (case process_sequence_group_samples env st g prompt_chunk_len samples of
        Inl e \<Rightarrow> []
      | Inr (st', g') \<Rightarrow> drop (length (scheduler_calls st)) (scheduler_calls st'))"

text \<open>The running parents of a group that receive no sample.\<close>

definition childless_parents ::
    "EngineState \<Rightarrow> SequenceGroup \<Rightarrow> SequenceOutputs list \<Rightarrow> nat list" where
  "childless_parents st g samples =
     filter (\<lambda>parent. \<not> list_ex (\<lambda>sample. parent_seq_id sample = parent) samples)
       (get_seqs_with_status st g RUNNING)"

text \<open>
  The ranking of the finished sequences in the spec's words: by score descending, ties
  by insertion order, then by \<^verbatim>\<open>seq_id\<close>. The key of the entry at position \<open>i\<close> is the
  triple of the negated score, \<open>i\<close> and the id, ordered lexicographically.
\<close>

definition ranked_by_spec :: "(FinishedEntry \<Rightarrow> real) \<Rightarrow> FinishedEntry list \<Rightarrow> FinishedEntry list" where
  "ranked_by_spec score entries =
     map snd (sort_key (\<lambda>(i, e). (- score e, i, fst e)) (enumerate 0 entries))"

text \<open>
  What the beam-search branch of \<^verbatim>\<open>_process_sequence_group_samples\<close> works on: the
  score of an entry, the list \<^verbatim>\<open>existing_finished_seqs + new_finished_seqs\<close> and the
  sorted list \<^verbatim>\<open>all_finished_seqs\<close>.
\<close>

definition beam_entry_score ::
    "EngineEnv \<Rightarrow> EngineState \<Rightarrow> SequenceGroup \<Rightarrow> nat \<Rightarrow> SequenceOutputs list
      \<Rightarrow> FinishedEntry \<Rightarrow> real" where
  "beam_entry_score env st g prompt_chunk_len samples =
     (case apply_and_check env st g prompt_chunk_len samples of
        (st2, g1, child_seqs) \<Rightarrow>
          (\<lambda>x. beam_score env st2 (length_penalty (sampling_params g1)) (fst x)))"

definition beam_candidates ::
    "EngineEnv \<Rightarrow> EngineState \<Rightarrow> SequenceGroup \<Rightarrow> nat \<Rightarrow> SequenceOutputs list
      \<Rightarrow> FinishedEntry list" where
  "beam_candidates env st g prompt_chunk_len samples =
     (case apply_and_check env st g prompt_chunk_len samples of
        (st2, g1, child_seqs) \<Rightarrow> finished_candidates st2 (get_finished_seqs st g) child_seqs)"

definition beam_ranking ::
    "EngineEnv \<Rightarrow> EngineState \<Rightarrow> SequenceGroup \<Rightarrow> nat \<Rightarrow> SequenceOutputs list
      \<Rightarrow> FinishedEntry list" where
  "beam_ranking env st g prompt_chunk_len samples =
     (case apply_and_check env st g prompt_chunk_len samples of
        (st2, g1, child_seqs) \<Rightarrow>
          all_finished_seqs env st2 (length_penalty (sampling_params g1))
            (get_finished_seqs st g) child_seqs)"

text \<open>The \<^verbatim>\<open>fork_seq\<close> calls that the loop over new children issues for a pair list.\<close>

definition fork_calls :: "EngineState \<Rightarrow> (nat \<times> nat) list \<Rightarrow> SchedulerCall list" where
  "fork_calls st cs =
     map (\<lambda>(seq, parent). ForkSeq parent seq)
       (filter (\<lambda>(seq, parent). seq \<noteq> parent \<and> \<not> is_finished (seqs st seq)) cs)"

text \<open>A text with the string \<open>t\<close> taken off its end.\<close>

definition without_suffix :: "string \<Rightarrow> string \<Rightarrow> string" where
  "without_suffix t s = take (length s - length t) s"

section \<open>Example configurations\<close>

text \<open>
  Modelled from the spec: \<^verbatim>\<open>Sequence.get_beam_search_score\<close> is not among the sources.
  The score is the cumulative logprob divided by the length to the power of the length
  penalty, where the length leaves out a final eos token and \<^verbatim>\<open>seq_len\<close>, when given,
  replaces it. It is the score of the example environment; the engine's definitions
  above take the score as given.
\<close>

definition spec_beam_search_score :: "Sequence \<Rightarrow> real \<Rightarrow> int \<Rightarrow> int option \<Rightarrow> real" where
  "spec_beam_search_score seq lp eos seq_len =
     cumulative_logprob seq
     / (real_of_int
          (case seq_len of
             Some l \<Rightarrow> l
           | None \<Rightarrow> if get_last_token_id seq = Some eos then int (get_len seq) - 1
                     else int (get_len seq)) powr lp)"

text \<open>
  A tokenizer with eos id 2 that decodes no text, and \<^verbatim>\<open>append_token_id\<close> that appends
  the token and adds its logprob.
\<close>

definition example_env :: EngineEnv where
  "example_env =
     \<lparr>eos_token_id = 2, max_model_len = 2048, replica_id = 0,
      detokenize_incrementally = (\<lambda>ids prev p r. ([], [], p, r)),
      get_beam_search_score = spec_beam_search_score,
      append_token_id =
        (\<lambda>seq s chunk.
           seq\<lparr>output_token_ids := output_token_ids seq @ [output_token s],
               cumulative_logprob :=
                 cumulative_logprob seq
                 + (case map_of (logprobs s) (output_token s) of Some l \<Rightarrow> l | None \<Rightarrow> 0)\<rparr>)\<rparr>"

definition example_seq :: Sequence where
  "example_seq =
     \<lparr>prompt_token_ids = [10, 20, 30], output_token_ids = [], cumulative_logprob = 0,
      status = RUNNING, tokens = None, prefix_offset = 0, read_offset = 0,
      output_text = [], prompt_processing_finished = True\<rparr>"

definition example_params :: SamplingParams where
  "example_params =
     \<lparr>best_of = 2, use_beam_search = False, length_penalty = 1,
      early_stopping = ES_Bool False, stop = [], ignore_eos = False, max_tokens = 16\<rparr>"

definition example_state :: EngineState where
  "example_state =
     \<lparr>seqs = (\<lambda>i. example_seq), seq_counter = 2, scheduler_calls = [],
      reported_execution_times = []\<rparr>"

definition example_group :: SequenceGroup where
  "example_group = \<lparr>request_id = ''r1'', seq_ids = [0, 1], sampling_params = example_params\<rparr>"

definition example_sample :: "nat \<Rightarrow> int \<Rightarrow> SequenceOutputs" where
  "example_sample parent token =
     \<lparr>parent_seq_id = parent, output_token = token, logprobs = [(token, - 1)], probs = None\<rparr>"

text \<open>
  A worker that answers with fixed values and records what it was told: the rendezvous
  id, the cache configuration and the number of model executions.
\<close>

record ExampleWorker =
  ew_gpu_id :: int
  ew_blocks :: "int \<times> int"
  ew_output :: SamplerOutput
  ew_time :: real
  ew_rendezvous :: "int option"
  ew_cache :: "CacheConfig option"
  ew_executions :: nat

definition example_methods :: "(ExampleWorker, string) WorkerMethods" where
  "example_methods =
     \<lparr>init_model = (\<lambda>r w. ((), w\<lparr>ew_rendezvous := Some r\<rparr>)),
      get_gpu_id = (\<lambda>w. (ew_gpu_id w, w)),
      profile_num_available_blocks = (\<lambda>bs util swap w. (ew_blocks w, w)),
      init_cache_engine = (\<lambda>c w. ((), w\<lparr>ew_cache := Some c\<rparr>)),
      execute_model =
        (\<lambda>metadata swap_in swap_out copy w.
           ((ew_output w, ew_time w), w\<lparr>ew_executions := Suc (ew_executions w)\<rparr>))\<rparr>"

definition example_worker :: "int \<Rightarrow> int \<times> int \<Rightarrow> SamplerOutput \<Rightarrow> ExampleWorker" where
  "example_worker gpu blocks out =
     \<lparr>ew_gpu_id = gpu, ew_blocks = blocks, ew_output = out, ew_time = 1,
      ew_rendezvous = None, ew_cache = None, ew_executions = 0\<rparr>"

definition example_cache_config :: CacheConfig where
  "example_cache_config =
     \<lparr>block_size = 16, gpu_memory_utilization = 9 / 10, swap_space_bytes = 4096,
      num_gpu_blocks = None, num_cpu_blocks = None\<rparr>"

definition example_plan :: "SequenceGroup list \<Rightarrow> SequenceGroup list \<Rightarrow> SchedulerOutputs" where
  "example_plan scheduled ignored =
     \<lparr>scheduled_seq_groups = scheduled, prompt_chunk_lens = map (\<lambda>g. 0) scheduled,
      blocks_to_swap_in = [], blocks_to_swap_out = [], blocks_to_copy = [],
      ignored_seq_groups = ignored, num_batched_prompt_tokens = 0,
      num_batched_output_tokens = length scheduled\<rparr>"

text \<open>
  A beam-search group of width 2 after the stop check: sequences 0 and 1 had finished
  before the step (scores \<open>- 1 / 2\<close> and \<open>- 1 / 4\<close>), sequence 2 is a running child
  (score \<open>- 3 / 5\<close> at its length).
\<close>

definition example_beam_params :: "EarlyStopping \<Rightarrow> SamplingParams" where
  "example_beam_params es = example_params\<lparr>use_beam_search := True, early_stopping := es\<rparr>"

definition example_beam_state :: EngineState where
  "example_beam_state =
     example_state
       \<lparr>seqs :=
          (\<lambda>i. if i = 0
                then example_seq\<lparr>output_token_ids := [40, 2], cumulative_logprob := - 2,
                                 status := FINISHED_STOPPED\<rparr>
                else if i = 1
                then example_seq\<lparr>output_token_ids := [41, 2], cumulative_logprob := - 1,
                                 status := FINISHED_STOPPED\<rparr>
                else example_seq\<lparr>output_token_ids := [42, 43], cumulative_logprob := - 3\<rparr>),
        seq_counter := 3\<rparr>"

definition example_beam_group :: SequenceGroup where
  "example_beam_group = example_group\<lparr>sampling_params := example_beam_params (ES_Bool False)\<rparr>"

text \<open>
  A beam-search group of width 2 with two sequences finished before the step (0 and 1,
  scores \<open>- 2\<close> and \<open>- 1\<close>) and one running parent (2). Its three samples fork the
  children 3 and 4, which both end with the eos token (scores \<open>- 3 / 10\<close> and
  \<open>- 5 / 2\<close>), and continue the parent.
\<close>

definition example_prune_state :: EngineState where
  "example_prune_state =
     example_state
       \<lparr>seqs :=
          (\<lambda>i. if i = 0
                then example_seq\<lparr>output_token_ids := [40, 2], cumulative_logprob := - 8,
                                 status := FINISHED_STOPPED\<rparr>
                else if i = 1
                then example_seq\<lparr>output_token_ids := [41, 2], cumulative_logprob := - 4,
                                 status := FINISHED_STOPPED\<rparr>
                else example_seq\<lparr>output_token_ids := [42], cumulative_logprob := - 1\<rparr>),
        seq_counter := 3\<rparr>"

definition example_prune_group :: SequenceGroup where
  "example_prune_group = example_beam_group\<lparr>seq_ids := [0, 1, 2]\<rparr>"

definition example_prune_samples :: "SequenceOutputs list" where
  "example_prune_samples =
     [(example_sample 2 2)\<lparr>logprobs := [(2, - 1 / 5)]\<rparr>,
      (example_sample 2 2)\<lparr>logprobs := [(2, - 9)]\<rparr>,
      (example_sample 2 43)\<lparr>logprobs := [(43, - 1 / 2)]\<rparr>]"

definition example_scheduled_group :: SequenceGroup where
  "example_scheduled_group = example_group\<lparr>seq_ids := [0]\<rparr>"

definition example_ignored_group :: SequenceGroup where
  "example_ignored_group = \<lparr>request_id = ''r2'', seq_ids = [1], sampling_params = example_params\<rparr>"

definition example_state_with_ignored :: EngineState where
  "example_state_with_ignored =
     example_state\<lparr>seqs := (seqs example_state)(1 := example_seq\<lparr>status := FINISHED_IGNORED\<rparr>)\<rparr>"

section \<open>Unfolding the definitions on concrete inputs\<close>

lemmas example_defs =
  example_env_def example_seq_def example_params_def example_state_def example_group_def
  example_sample_def example_methods_def example_worker_def example_cache_config_def
  example_plan_def example_scheduled_group_def example_ignored_group_def
  example_state_with_ignored_def example_beam_params_def example_beam_state_def
  example_beam_group_def example_prune_state_def example_prune_group_def
  example_prune_samples_def
  spec_beam_search_score_def

lemmas sequence_defs =
  get_token_ids_def get_len_def get_prompt_len_def get_output_len_def get_last_token_id_def
  is_finished_def set_status_def endswith_def slice_to_def slice_from_def subscript_def
  sort_desc_def decode_sequence_def check_stop_def

lemmas processor_defs =
  get_seqs_with_status_def get_finished_seqs_def group_add_def group_remove_def update_seq_def
  scheduler_call_def check_beam_search_early_stopping_def beam_score_def
  finished_candidates_def all_finished_seqs_def running_child_seqs_def stop_beam_search_def
  beam_branch_def apply_and_check_def process_sequence_group_samples_def
  process_model_outputs_def from_seq_group_def

lemmas step_defs = is_empty_def run_workers_def schedule_step_def step_def

section \<open>The stop check\<close>

lemma check_stop_strings_find:
  "check_stop_strings seq stops =
     map_option
       (\<lambda>t. seq\<lparr>output_text := slice_to (- int (length t)) (output_text seq),
                 status := FINISHED_STOPPED\<rparr>)
       (find (endswith (output_text seq)) stops)"
  by (induction stops) (simp_all add: set_status_def)

lemma slice_to_neg_length:
  "t \<noteq> [] \<Longrightarrow> slice_to (- int (length t)) s = without_suffix t s"
  by (simp add: slice_to_def without_suffix_def)

text \<open>
  With stop strings that are all non-empty the check is the chain of rules in the
  source's order: the first stop string that ends the text is cut off, then the two
  length caps, then the eos token.
\<close>

lemma check_stop_nonempty_stops:
  assumes "[] \<notin> set (stop sp)"
  shows "check_stop env seq sp =
    (case find (endswith (output_text seq)) (stop sp) of
       Some t \<Rightarrow> seq\<lparr>output_text := without_suffix t (output_text seq),
                      status := FINISHED_STOPPED\<rparr>
     | None \<Rightarrow>
         if int (get_len seq) > max_model_len env then seq\<lparr>status := FINISHED_LENGTH_CAPPED\<rparr>
         else if int (get_output_len seq) = max_tokens sp
         then seq\<lparr>status := FINISHED_LENGTH_CAPPED\<rparr>
         else if \<not> ignore_eos sp \<and> get_last_token_id seq = Some (eos_token_id env)
         then seq\<lparr>status := FINISHED_STOPPED\<rparr>
         else seq)"
proof (cases "find (endswith (output_text seq)) (stop sp)")
  case None
  then show ?thesis
    by (simp add: check_stop_def check_stop_strings_find set_status_def)
next
  case (Some t)
  then have "t \<in> set (stop sp)"
    by (auto simp: find_Some_iff)
  with assms have "t \<noteq> []" by auto
  with Some show ?thesis
    by (simp add: check_stop_def check_stop_strings_find slice_to_neg_length)
qed

text \<open>
  The check never touches the token ids or the detokenizer's tokens, and it leaves the
  text alone when no stop string ends it.
\<close>

lemma check_stop_frame:
  "prompt_token_ids (check_stop env seq sp) = prompt_token_ids seq
   \<and> output_token_ids (check_stop env seq sp) = output_token_ids seq
   \<and> tokens (check_stop env seq sp) = tokens seq
   \<and> (find (endswith (output_text seq)) (stop sp) = None
        \<longrightarrow> output_text (check_stop env seq sp) = output_text seq)"
  by (cases "find (endswith (output_text seq)) (stop sp)")
     (simp_all add: check_stop_def check_stop_strings_find set_status_def)

text \<open>
  C3 (the stop check applies its rules in order; a matched stop string is cut from the
  end of the text): the code departs from this at an empty stop string. The text
  \<^verbatim>\<open>Hello\<close> ends with the empty string, the matched suffix is empty, and
  \<^verbatim>\<open>output_text[:-0]\<close> leaves nothing: the check empties the whole text instead of
  leaving it as it is.
\<close>

theorem check_stop_empty_stop_string:
  "check_stop example_env
     (example_seq\<lparr>output_token_ids := [40], output_text := ''Hello''\<rparr>)
     (example_params\<lparr>stop := ['''']\<rparr>)
   = example_seq\<lparr>output_token_ids := [40], output_text := '''', status := FINISHED_STOPPED\<rparr>"
  by (simp add: check_stop_def example_seq_def example_params_def endswith_def slice_to_def
      set_status_def)

text \<open>
  C10 (only the stop-string rule changes the text, and it removes exactly the matched
  stop string): with the stop strings \<^verbatim>\<open>""\<close> and \<^verbatim>\<open>"lo"\<close> the text \<^verbatim>\<open>Hello\<close> ends
  with the first of them, the empty one; removing exactly that string would leave
  \<^verbatim>\<open>Hello\<close>, and the check leaves the empty text.
\<close>

theorem check_stop_removes_more_than_stop_string:
  "endswith ''Hello'' ''''
   \<and> without_suffix '''' ''Hello'' = ''Hello''
   \<and> output_text (check_stop example_env (example_seq\<lparr>output_text := ''Hello''\<rparr>)
        (example_params\<lparr>stop := ['''', ''lo'']\<rparr>)) = ''''"
  by (simp add: check_stop_def example_seq_def example_params_def endswith_def slice_to_def
      set_status_def without_suffix_def)

section \<open>The worker fan-out and start-up\<close>

lemma run_workers_all:
  "run_workers worker_method True workers
     = (Inr (AllOutputs (map (fst \<circ> worker_method) workers)), map (snd \<circ> worker_method) workers)"
  by (simp add: run_workers_def)

lemma run_workers_same:
  "workers \<noteq> [] \<Longrightarrow>
   run_workers worker_method False workers
     = (if list_all (\<lambda>w. fst (worker_method w) = fst (worker_method (hd workers))) (tl workers)
        then Inr (SameOutput (fst (worker_method (hd workers)))) else Inl AssertionError,
        map (snd \<circ> worker_method) workers)"
  by (cases workers) (auto simp: run_workers_def list_all_iff Let_def)

lemma run_workers_unit:
  fixes worker_method :: "'w \<Rightarrow> unit \<times> 'w"
  shows "workers \<noteq> [] \<Longrightarrow>
   run_workers worker_method False workers = (Inr (SameOutput ()), map (snd \<circ> worker_method) workers)"
  by (simp add: run_workers_same list_all_iff)

text \<open>
  C9, as the claim states it, fails: the rendezvous id is the integer drawn plus the
  replica id, a Python integer that nothing reduces to 32 bits. With the draw
  \<open>2\<^sup>3\<^sup>2 - 1\<close> and replica id \<open>1\<close> it is \<open>2\<^sup>3\<^sup>2\<close>.
\<close>

theorem rendezvous_id_exceeds_32_bits:
  "randint_returns 0 (2 ^ 32 - 1) 4294967295
   \<and> \<not> is_uint32 (rendezvous_id (example_env\<lparr>replica_id := 1\<rparr>) 4294967295)"
  by (simp add: randint_returns_def is_uint32_def rendezvous_id_def example_env_def)

text \<open>
  C9, amended: for an integer \<open>r\<close> drawn from \<open>0 .. 2\<^sup>3\<^sup>2 - 1\<close> the rendezvous id is
  \<open>r + replica_id\<close>; it lies between \<open>replica_id\<close> and \<open>replica_id + 2\<^sup>3\<^sup>2 - 1\<close> and is a
  32-bit unsigned value exactly when \<open>0 \<le> r + replica_id < 2\<^sup>3\<^sup>2\<close>. This id is what
  \<^verbatim>\<open>init_model\<close> receives on every worker, on the local path and on the remote one.
\<close>

theorem rendezvous_id_range:
  assumes "randint_returns 0 (2 ^ 32 - 1) r"
  shows "rendezvous_id env r = r + replica_id env
    \<and> replica_id env \<le> rendezvous_id env r
    \<and> rendezvous_id env r \<le> replica_id env + (2 ^ 32 - 1)
    \<and> (is_uint32 (rendezvous_id env r) \<longleftrightarrow> - r \<le> replica_id env \<and> replica_id env < 2 ^ 32 - r)
    \<and> init_workers wm env 1 worker r
        = (Inr (), [snd (init_model wm (r + replica_id env) worker)])
    \<and> (fst (check_consecutive_gpu_allocation wm workers) = Inr ()
        \<longrightarrow> init_workers_ray wm env workers r
            = (Inr (), map (\<lambda>w. snd (init_model wm (r + replica_id env) w))
                         (snd (check_consecutive_gpu_allocation wm workers))))"
  using assms
  by (auto simp: randint_returns_def rendezvous_id_def is_uint32_def init_workers_def
      init_workers_ray_def run_workers_all split: prod.splits sum.splits)

lemma upto_0_1: "[0..1] = [0, 1::int]"
  by (simp add: upto.simps)

theorem rendezvous_id_range_witness:
  "randint_returns 0 (2 ^ 32 - 1) 7
   \<and> fst (check_consecutive_gpu_allocation example_methods
            [example_worker 1 (100, 7) [], example_worker 0 (80, 9) []]) = Inr ()
   \<and> rendezvous_id (example_env\<lparr>replica_id := 3\<rparr>) 7 = 10
   \<and> is_uint32 (rendezvous_id (example_env\<lparr>replica_id := 3\<rparr>) 7)
   \<and> init_workers example_methods (example_env\<lparr>replica_id := 3\<rparr>) 1
        (example_worker 0 (100, 7) []) 7
      = (Inr (), [example_worker 0 (100, 7) []\<lparr>ew_rendezvous := Some 10\<rparr>])
   \<and> init_workers_ray example_methods (example_env\<lparr>replica_id := 3\<rparr>)
        [example_worker 1 (100, 7) [], example_worker 0 (80, 9) []] 7
      = (Inr (), [example_worker 1 (100, 7) []\<lparr>ew_rendezvous := Some 10\<rparr>,
                  example_worker 0 (80, 9) []\<lparr>ew_rendezvous := Some 10\<rparr>])"
  using rendezvous_id_range [of 7 "example_env\<lparr>replica_id := 3\<rparr>" example_methods
      "example_worker 0 (100, 7) []"
      "[example_worker 1 (100, 7) [], example_worker 0 (80, 9) []]"]
  by (simp add: randint_returns_def rendezvous_id_def is_uint32_def init_workers_def
      init_workers_ray_def check_consecutive_gpu_allocation_def run_workers_all upto_0_1
      example_methods_def example_worker_def example_env_def)

text \<open>
  C8: with at least one worker, \<^verbatim>\<open>_init_cache\<close> profiles every worker and takes the
  minimum of the GPU block counts and the minimum of the CPU block counts. If the GPU
  minimum is not positive it raises \<^verbatim>\<open>ValueError\<close> and the workers are as profiling
  left them: none has received \<^verbatim>\<open>init_cache_engine\<close>. Otherwise the two minima are
  stored in the cache configuration and every worker receives \<^verbatim>\<open>init_cache_engine\<close>
  with that configuration.
\<close>

theorem init_cache_minimum:
  assumes "workers \<noteq> []"
  shows "init_cache wm cache_config workers =
    (let profile = profile_num_available_blocks wm (block_size cache_config)
                     (gpu_memory_utilization cache_config) (swap_space_bytes cache_config);
         num_blocks = map (fst \<circ> profile) workers;
         profiled = map (snd \<circ> profile) workers;
         gpu = Min (set (map fst num_blocks));
         cpu = Min (set (map snd num_blocks));
         final = cache_config\<lparr>num_gpu_blocks := Some gpu, num_cpu_blocks := Some cpu\<rparr>
     in if gpu \<le> 0 then (Inl ValueError, profiled)
        else (Inr final, map (snd \<circ> init_cache_engine wm final) profiled))"
  using assms
  by (simp add: init_cache_def run_workers_all run_workers_unit Let_def image_image)

theorem init_cache_minimum_witness:
  "[example_worker 0 (100, 7) [], example_worker 1 (80, 9) []] \<noteq> []
   \<and> init_cache example_methods example_cache_config
       [example_worker 0 (100, 7) [], example_worker 1 (80, 9) []]
     = (Inr (example_cache_config\<lparr>num_gpu_blocks := Some 80, num_cpu_blocks := Some 7\<rparr>),
        [example_worker 0 (100, 7) []
           \<lparr>ew_cache := Some (example_cache_config\<lparr>num_gpu_blocks := Some 80,
                                                  num_cpu_blocks := Some 7\<rparr>)\<rparr>,
         example_worker 1 (80, 9) []
           \<lparr>ew_cache := Some (example_cache_config\<lparr>num_gpu_blocks := Some 80,
                                                  num_cpu_blocks := Some 7\<rparr>)\<rparr>])
   \<and> init_cache example_methods example_cache_config
       [example_worker 0 (100, 7) [], example_worker 1 (0, 9) []]
     = (Inl ValueError, [example_worker 0 (100, 7) [], example_worker 1 (0, 9) []])"
  using init_cache_minimum [of "[example_worker 0 (100, 7) [], example_worker 1 (80, 9) []]"
      example_methods example_cache_config]
    init_cache_minimum [of "[example_worker 0 (100, 7) [], example_worker 1 (0, 9) []]"
      example_methods example_cache_config]
  by (simp add: example_methods_def example_worker_def example_cache_config_def Let_def)

section \<open>The step driver\<close>

text \<open>
  C7: when the plan is empty, \<^verbatim>\<open>step\<close> returns the request outputs of the plan's ignored
  groups and nothing else happens: the workers are as before (no \<^verbatim>\<open>execute_model\<close>) and
  the engine state is as before (no output processing, no scheduler hook).
\<close>

theorem step_empty_plan:
  assumes "is_empty scheduler_outputs"
  shows "step wm env (metadata, scheduler_outputs) workers st
     = (Inr (map (from_seq_group st) (ignored_seq_groups scheduler_outputs)), workers, st)"
  using assms by (simp add: step_def schedule_step_def)

theorem step_empty_plan_witness:
  "is_empty (example_plan [] [example_ignored_group])
   \<and> step example_methods example_env ([], example_plan [] [example_ignored_group])
       [example_worker 0 (100, 7) [[example_sample 0 40]]] example_state_with_ignored
     = (Inr [\<lparr>ro_request_id = ''r2'',
              ro_outputs = [\<lparr>co_seq_id = 1, co_text = [], co_token_ids = [],
                             co_cumulative_logprob = 0,
                             co_finish_reason = Some FINISHED_IGNORED\<rparr>],
              ro_finished = True\<rparr>],
        [example_worker 0 (100, 7) [[example_sample 0 40]]], example_state_with_ignored)"
  using step_empty_plan [of "example_plan [] [example_ignored_group]" example_methods
      example_env "[]" "[example_worker 0 (100, 7) [[example_sample 0 40]]]"
      example_state_with_ignored]
  by (simp add: is_empty_def from_seq_group_def is_finished_def example_defs)

text \<open>
  C2: in a step whose plan is not empty, with at least one worker, the sampler outputs
  of all workers are compared with the first worker's: if one differs the step raises
  \<^verbatim>\<open>AssertionError\<close>, otherwise the first worker's output is the one processed. In the
  same way \<^verbatim>\<open>_run_workers\<close> without \<^verbatim>\<open>get_all_outputs\<close> raises \<^verbatim>\<open>AssertionError\<close> if
  an answer differs from the first and returns the first otherwise.
\<close>

theorem equality_gate:
  assumes "\<not> is_empty so" and "workers \<noteq> []"
  shows "(let exec = execute_model wm metadata (blocks_to_swap_in so) (blocks_to_swap_out so)
                      (blocks_to_copy so);
              outputs = map (\<lambda>w. fst (fst (exec w))) workers
          in fst (step wm env (metadata, so) workers st)
             = (if list_all (\<lambda>output. output = hd outputs) outputs
                then (case process_model_outputs env st (hd outputs) so of
                        Inl e \<Rightarrow> Inl e
                      | Inr (request_outputs, st') \<Rightarrow>
                          Inr (request_outputs @ map (from_seq_group st) (ignored_seq_groups so)))
                else Inl AssertionError))
     \<and> fst (run_workers worker_method False workers)
         = (if list_all (\<lambda>w. fst (worker_method w) = fst (worker_method (hd workers))) (tl workers)
            then Inr (SameOutput (fst (worker_method (hd workers)))) else Inl AssertionError)"
  using assms
  by (auto simp: step_def schedule_step_def run_workers_all run_workers_same Let_def comp_def
      split: sum.splits prod.splits)

theorem equality_gate_witness:
  "\<not> is_empty (example_plan [example_scheduled_group] [])
   \<and> [example_worker 0 (100, 7) [[example_sample 0 40]],
       example_worker 1 (100, 7) [[example_sample 0 41]]] \<noteq> []
   \<and> fst (step example_methods example_env ([''m1''], example_plan [example_scheduled_group] [])
            [example_worker 0 (100, 7) [[example_sample 0 40]],
             example_worker 1 (100, 7) [[example_sample 0 41]]] example_state)
      = Inl AssertionError
   \<and> map_sum id (map ro_outputs)
        (fst (step example_methods example_env
                ([''m1''], example_plan [example_scheduled_group] [])
                [example_worker 0 (100, 7) [[example_sample 0 40]],
                 example_worker 1 (100, 7) [[example_sample 0 40]]] example_state))
      = Inr [[\<lparr>co_seq_id = 0, co_text = [], co_token_ids = [40], co_cumulative_logprob = - 1,
               co_finish_reason = None\<rparr>]]
   \<and> fst (run_workers (get_gpu_id example_methods) False
            [example_worker 0 (100, 7) [[example_sample 0 40]],
             example_worker 1 (100, 7) [[example_sample 0 41]]])
      = Inl AssertionError"
  using equality_gate [of "example_plan [example_scheduled_group] []"
      "[example_worker 0 (100, 7) [[example_sample 0 40]],
        example_worker 1 (100, 7) [[example_sample 0 41]]]"
      example_methods "[''m1'']" example_env example_state "get_gpu_id example_methods"]
    equality_gate [of "example_plan [example_scheduled_group] []"
      "[example_worker 0 (100, 7) [[example_sample 0 40]],
        example_worker 1 (100, 7) [[example_sample 0 40]]]"
      example_methods "[''m1'']" example_env example_state "get_gpu_id example_methods"]
  by (simp add: example_defs sequence_defs processor_defs step_defs Let_def)


text \<open>
  Whenever a step with a non-empty plan returns, its list is the outputs of the
  scheduled groups, then the outputs of the ignored groups, then the outputs of the
  ignored groups as converted by \<^verbatim>\<open>_schedule\<close>.
\<close>

lemma process_groups_length:
  "process_groups env st gs cs out = Inr (st', gs') \<Longrightarrow> length gs' = length gs"
proof (induction env st gs cs out arbitrary: st' gs' rule: process_groups.induct)
  case (1 env st g gs prompt_chunk_len cs samples out)
  from "1.prems" obtain st1 g1 where
    p: "process_sequence_group_samples env st g prompt_chunk_len samples = Inr (st1, g1)"
    by (auto split: sum.splits)
  with "1.prems" obtain gs1 where
    r: "process_groups env st1 gs cs out = Inr (st', gs1)" and gs': "gs' = g1 # gs1"
    by (auto split: sum.splits)
  from "1.IH"[OF p refl r] gs' show ?case by simp
qed simp_all

lemma step_outputs_shape:
  assumes "\<not> is_empty so" and "fst (step wm env (metadata, so) workers st) = Inr outs"
  shows "\<exists>st' groups.
           length groups = length (scheduled_seq_groups so)
           \<and> outs = map (from_seq_group st') groups
                    @ map (from_seq_group st') (ignored_seq_groups so)
                    @ map (from_seq_group st) (ignored_seq_groups so)"
proof -
  from assms obtain sampler_output ros st2 where
    pm: "process_model_outputs env st sampler_output so = Inr (ros, st2)"
    and outs: "outs = ros @ map (from_seq_group st) (ignored_seq_groups so)"
    by (auto simp: step_def schedule_step_def run_workers_all Let_def
        split: if_splits sum.splits prod.splits)
  from pm obtain st1 groups where
    pg: "process_groups env st (scheduled_seq_groups so) (prompt_chunk_lens so) sampler_output
           = Inr (st1, groups)"
    and ros: "ros = map (from_seq_group (scheduler_call FreeFinishedSeqGroups st1))
                      (groups @ ignored_seq_groups so)"
    by (auto simp: process_model_outputs_def Let_def split: sum.splits)
  from process_groups_length[OF pg] outs ros show ?thesis
    by (intro exI[of _ "scheduler_call FreeFinishedSeqGroups st1"] exI[of _ groups]) simp
qed

text \<open>
  C4 (one request output for every scheduled group and one for every ignored group):
  the code departs from this when the plan holds a scheduled and an ignored group.
  \<^verbatim>\<open>_process_model_outputs\<close> already returns an output for the ignored group \<^verbatim>\<open>r2\<close>, and
  \<^verbatim>\<open>step\<close> appends the list \<^verbatim>\<open>ignored\<close> to it once more: \<^verbatim>\<open>r2\<close> is reported twice.
\<close>

theorem step_reports_ignored_group_twice:
  "map_sum id (map ro_request_id)
     (fst (step example_methods example_env
             ([''m1''], example_plan [example_scheduled_group] [example_ignored_group])
             [example_worker 0 (100, 7) [[example_sample 0 40]]] example_state_with_ignored))
   = Inr [''r1'', ''r2'', ''r2'']"
  by (simp add: example_defs sequence_defs processor_defs step_defs Let_def)

section \<open>Sorting by score\<close>

lemma set_sort_desc [simp]: "set (sort_desc f xs) = set xs"
  by (simp add: sort_desc_def)

lemma length_sort_desc [simp]: "length (sort_desc f xs) = length xs"
  by (simp add: sort_desc_def)

lemma sort_desc_sorted: "sorted (map (\<lambda>x. - f x) (sort_desc f xs))"
  by (simp add: sort_desc_def)

lemma sort_desc_nth_mono:
  assumes "i \<le> j" "j < length xs"
  shows "f (sort_desc f xs ! j) \<le> f (sort_desc f xs ! i)"
proof -
  have "map (\<lambda>x. - f x) (sort_desc f xs) ! i \<le> map (\<lambda>x. - f x) (sort_desc f xs) ! j"
    using assms by (intro sorted_nth_mono sort_desc_sorted) simp_all
  with assms show ?thesis by simp
qed

lemma sort_desc_hd_max:
  assumes "x \<in> set xs"
  shows "f x \<le> f (hd (sort_desc f xs))"
proof -
  from assms have "x \<in> set (sort_desc f xs)" by simp
  then obtain j where j: "j < length (sort_desc f xs)" "sort_desc f xs ! j = x"
    by (metis in_set_conv_nth)
  then have "f (sort_desc f xs ! j) \<le> f (sort_desc f xs ! 0)"
    by (intro sort_desc_nth_mono) simp_all
  moreover from j(1) have "sort_desc f xs \<noteq> []" by (cases "sort_desc f xs") simp_all
  ultimately show ?thesis using j by (simp add: hd_conv_nth)
qed

lemma sort_desc_take_min:
  assumes "0 < k" "k \<le> length xs" "x \<in> set (take k (sort_desc f xs))"
  shows "f (sort_desc f xs ! (k - 1)) \<le> f x"
proof -
  from assms have "x \<in> set (take k (sort_desc f xs))" by simp
  then obtain j where "j < length (take k (sort_desc f xs))" "take k (sort_desc f xs) ! j = x"
    by (metis in_set_conv_nth)
  with assms have j: "j < k" "sort_desc f xs ! j = x" by simp_all
  with assms have "f (sort_desc f xs ! (k - 1)) \<le> f (sort_desc f xs ! j)"
    by (intro sort_desc_nth_mono) simp_all
  with j show ?thesis by simp
qed

lemma subscript_nth: "0 \<le> i \<Longrightarrow> i < int (length xs) \<Longrightarrow> subscript xs i = Inr (xs ! nat i)"
  by (simp add: subscript_def)

lemma subscript_0: "xs \<noteq> [] \<Longrightarrow> subscript xs 0 = Inr (hd xs)"
  by (cases xs) (simp_all add: subscript_def)

section \<open>The scheduler calls of the output processor\<close>

lemma scheduler_call_simps [simp]:
  "scheduler_calls (scheduler_call c st) = scheduler_calls st @ [c]"
  "seqs (scheduler_call c st) = seqs st"
  "seq_counter (scheduler_call c st) = seq_counter st"
  by (simp_all add: scheduler_call_def)

lemma update_seq_simps [simp]:
  "scheduler_calls (update_seq i f st) = scheduler_calls st"
  "seq_counter (update_seq i f st) = seq_counter st"
  "seqs (update_seq i f st) = (seqs st)(i := f (seqs st i))"
  by (simp_all add: update_seq_def)

lemma fork_children_calls:
  "fork_children env parent chunk smps (st, cs) = (st', cs') \<Longrightarrow>
   scheduler_calls st' = scheduler_calls st"
  by (induction smps arbitrary: st cs) (auto simp: Let_def)

lemma fork_children_pairs:
  "fork_children env parent chunk smps (st, cs) = (st', cs') \<Longrightarrow>
   (s, p) \<in> set cs' \<Longrightarrow> (s, p) \<in> set cs \<or> (p = parent \<and> smps \<noteq> [])"
proof (induction smps arbitrary: st cs)
  case Nil
  then show ?case by simp
next
  case (Cons a smps)
  from Cons.prems(1) obtain st1 where
    "fork_children env parent chunk smps (st1, cs @ [(seq_counter st, parent)]) = (st', cs')"
    by (simp add: Let_def)
  from Cons.IH[OF this Cons.prems(2)] show ?case by auto
qed

lemma apply_samples_calls:
  "apply_samples env chunk dict parents (st, g, cs) = (st', g', cs') \<Longrightarrow>
   scheduler_calls st' = scheduler_calls st @ map FreeSeq (filter (\<lambda>p. dict p = []) parents)"
proof (induction parents arbitrary: st g cs)
  case Nil
  then show ?case by simp
next
  case (Cons parent rest)
  show ?case
  proof (cases "dict parent = []")
    case True
    with Cons.prems Cons.IH show ?thesis by (simp add: Let_def)
  next
    case False
    obtain st1 cs1 where f: "fork_children env parent chunk (butlast (dict parent)) (st, cs) = (st1, cs1)"
      by (cases "fork_children env parent chunk (butlast (dict parent)) (st, cs)")
    with False Cons.prems Cons.IH fork_children_calls[OF f] show ?thesis by (simp add: Let_def)
  qed
qed

lemma apply_samples_pairs:
  "apply_samples env chunk dict parents (st, g, cs) = (st', g', cs') \<Longrightarrow>
   (s, p) \<in> set cs' \<Longrightarrow> (s, p) \<in> set cs \<or> (p \<in> set parents \<and> dict p \<noteq> [])"
proof (induction parents arbitrary: st g cs)
  case Nil
  then show ?case by simp
next
  case (Cons parent rest)
  show ?case
  proof (cases "dict parent = []")
    case True
    with Cons.prems Cons.IH[of _ _ cs] show ?thesis by (auto simp: Let_def)
  next
    case False
    obtain st1 cs1 where f: "fork_children env parent chunk (butlast (dict parent)) (st, cs) = (st1, cs1)"
      by (cases "fork_children env parent chunk (butlast (dict parent)) (st, cs)")
    with False Cons.prems have
      "apply_samples env chunk dict rest
         (update_seq parent (\<lambda>seq. append_token_id env seq (last (dict parent)) chunk) st1, g,
          cs1 @ [(parent, parent)]) = (st', g', cs')"
      by (simp add: Let_def)
    from Cons.IH[OF this Cons.prems(2)] fork_children_pairs[OF f, of s p] False
    show ?thesis by auto
  qed
qed

lemma decode_and_check_calls [simp]:
  "scheduler_calls (decode_and_check env sp cs st) = scheduler_calls st"
  by (induction cs arbitrary: st) auto

lemma add_and_fork_seqs:
  "add_and_fork cs (st, g) = (st', g') \<Longrightarrow> seqs st' = seqs st"
  by (induction cs arbitrary: st g) (auto split: if_splits)

lemma fork_calls_cong: "seqs st' = seqs st \<Longrightarrow> fork_calls st' cs = fork_calls st cs"
  by (simp add: fork_calls_def)

lemma add_and_fork_calls:
  "add_and_fork cs (st, g) = (st', g') \<Longrightarrow>
   scheduler_calls st' = scheduler_calls st @ fork_calls st cs"
proof (induction cs arbitrary: st g)
  case Nil
  then show ?case by (simp add: fork_calls_def)
next
  case (Cons a cs)
  obtain seq parent where a: "a = (seq, parent)" by (cases a)
  show ?case
  proof (cases "seq \<noteq> parent \<and> \<not> is_finished (seqs st seq)")
    case True
    with Cons.prems a have
      "add_and_fork cs (scheduler_call (ForkSeq parent seq) st, group_add seq g) = (st', g')"
      by simp
    from Cons.IH[OF this] True a show ?thesis
      by (simp add: fork_calls_def)
  next
    case False
    with Cons.prems a have "\<exists>g1. add_and_fork cs (st, g1) = (st', g')"
      by (auto split: if_splits)
    then obtain g1 where "add_and_fork cs (st, g1) = (st', g')" ..
    from Cons.IH[OF this] False a show ?thesis
      by (auto simp: fork_calls_def)
  qed
qed

lemma free_finished_parents_calls:
  "scheduler_calls (free_finished_parents cs st) =
   scheduler_calls st
   @ map (\<lambda>(seq, parent). FreeSeq seq)
       (filter (\<lambda>(seq, parent). seq = parent \<and> is_finished (seqs st seq)) cs)"
proof (induction cs arbitrary: st)
  case Nil
  then show ?case by simp
next
  case (Cons a cs)
  show ?case by (cases a) (auto simp: Cons.IH)
qed

lemma remove_unselected_calls:
  "remove_unselected cs (st, g) = (st', g') \<Longrightarrow>
   scheduler_calls st' =
   scheduler_calls st @ map (\<lambda>(seq, parent). FreeSeq seq) (filter (\<lambda>(seq, parent). seq = parent) cs)"
proof (induction cs arbitrary: st g)
  case Nil
  then show ?case by simp
next
  case (Cons a cs)
  obtain seq parent where a: "a = (seq, parent)" by (cases a)
  show ?case
  proof (cases "seq = parent")
    case True
    with Cons.prems a have
      "remove_unselected cs (scheduler_call (FreeSeq seq) st, group_remove seq g) = (st', g')"
      by simp
    from Cons.IH[OF this] True a show ?thesis by simp
  next
    case False
    with Cons.prems a have "remove_unselected cs (st, g) = (st', g')" by simp
    from Cons.IH[OF this] False a show ?thesis by simp
  qed
qed

lemma forks_precede_frees_append:
  "list_all is_fork xs \<Longrightarrow> list_all is_free ys \<Longrightarrow> forks_precede_frees (xs @ ys)"
proof (induction xs)
  case Nil
  then show ?case
  proof (induction ys)
    case Nil
    then show ?case by simp
  next
    case (Cons c ys)
    then have "list_all (\<lambda>d. \<not> is_fork d) ys"
      by (auto simp: list_all_iff elim: is_free.elims is_fork.elims)
    with Cons show ?case by simp
  qed
next
  case (Cons c xs)
  then have "\<not> is_free c" by (cases c) simp_all
  with Cons show ?case by simp
qed


lemma set_slice_to: "set (slice_to n xs) \<subseteq> set xs"
  by (auto simp: slice_to_def dest: in_set_takeD)

lemma set_slice_from: "set (slice_from n xs) \<subseteq> set xs"
  by (auto simp: slice_from_def dest: in_set_dropD)

lemma select_new_subset:
  "(s, p) \<in> set (select_new es) \<Longrightarrow> (s, Some p, True) \<in> set es"
  by (induction es rule: select_new.induct) auto

lemma all_finished_new:
  "(s, Some p, b) \<in> set (all_finished_seqs env st lp existing cs) \<Longrightarrow> (s, p) \<in> set cs"
  by (auto simp: all_finished_seqs_def finished_candidates_def Let_def)

lemma running_subset: "set (running_child_seqs env st lp cs) \<subseteq> set cs"
  by (auto simp: running_child_seqs_def set_sort_desc)

lemma list_all_is_fork: "list_all is_fork (fork_calls st cs)"
  by (auto simp: fork_calls_def list_all_iff)

lemma fork_calls_parent:
  "ForkSeq p s \<in> set (fork_calls st cs) \<Longrightarrow> (s, p) \<in> set cs"
  by (auto simp: fork_calls_def)

lemma beam_branch_calls:
  assumes "beam_branch env st g existing cs = Inr (st', g')"
  shows "\<exists>sel frees. set sel \<subseteq> set cs \<and> list_all is_free frees
           \<and> scheduler_calls st' = scheduler_calls st @ fork_calls st sel @ frees"
proof -
  define sp where "sp = sampling_params g"
  define fin where "fin = all_finished_seqs env st (length_penalty sp) existing cs"
  define run where "run = running_child_seqs env st (length_penalty sp) cs"
  define selected where "selected = select_new (slice_to (best_of sp) fin)"
  obtain g1 unselected where dl: "drop_low (slice_from (best_of sp) fin) (g, []) = (g1, unselected)"
    by (cases "drop_low (slice_from (best_of sp) fin) (g, [])")
  from assms obtain stop_now where sn: "stop_beam_search env st sp fin run = Inr stop_now"
    by (auto simp: beam_branch_def Let_def sp_def fin_def run_def split: prod.splits sum.splits)
  define sel where "sel = (if stop_now then selected else selected @ slice_to (best_of sp) run)"
  define unsel where "unsel = (if stop_now then unselected @ run
                               else unselected @ slice_from (best_of sp) run)"
  obtain st2 g2 where af: "add_and_fork sel (st, g1) = (st2, g2)"
    by (cases "add_and_fork sel (st, g1)")
  from assms dl sn af have ru:
    "remove_unselected unsel (free_finished_parents sel st2, g2) = (st', g')"
    unfolding sel_def unsel_def selected_def fin_def run_def sp_def
    by (simp add: beam_branch_def Let_def)
  have "set selected \<subseteq> set cs"
    using set_slice_to[of "best_of sp" fin]
    by (auto simp: selected_def fin_def dest!: select_new_subset dest: all_finished_new)
  moreover have "set (slice_to (best_of sp) run) \<subseteq> set cs"
    using set_slice_to[of "best_of sp" run] running_subset[of env st "length_penalty sp" cs]
    by (auto simp: run_def)
  ultimately have sub: "set sel \<subseteq> set cs" by (auto simp: sel_def)
  let ?frees = "map (\<lambda>(seq, parent). FreeSeq seq)
                  (filter (\<lambda>(seq, parent). seq = parent \<and> is_finished (seqs st2 seq)) sel)
                @ map (\<lambda>(seq, parent). FreeSeq seq)
                    (filter (\<lambda>(seq, parent). seq = parent) unsel)"
  have "scheduler_calls st' = scheduler_calls st @ fork_calls st sel @ ?frees"
    using remove_unselected_calls[OF ru] add_and_fork_calls[OF af]
    by (simp add: free_finished_parents_calls)
  moreover have "list_all is_free ?frees"
    by (auto simp: list_all_iff)
  ultimately show ?thesis using sub by blast
qed

lemma childless_parents_filter:
  "childless_parents st g samples =
   filter (\<lambda>p. filter (\<lambda>sample. parent_seq_id sample = p) samples = [])
     (get_seqs_with_status st g RUNNING)"
  by (auto simp: childless_parents_def list_ex_iff filter_empty_conv intro!: filter_cong)

lemma process_calls:
  assumes "process_sequence_group_samples env st g chunk samples = Inr (st', g')"
  shows "\<exists>st2 sel frees.
           (\<forall>(s, p) \<in> set sel. p \<notin> set (childless_parents st g samples))
           \<and> list_all is_free frees
           \<and> scheduler_calls st' =
               scheduler_calls st @ map FreeSeq (childless_parents st g samples)
               @ fork_calls st2 sel @ frees"
proof -
  define parents where "parents = get_seqs_with_status st g RUNNING"
  define dict where "dict = (\<lambda>p. filter (\<lambda>sample. parent_seq_id sample = p) samples)"
  obtain st1 g1 cs where ap: "apply_samples env chunk dict parents (st, g, []) = (st1, g1, cs)"
    by (cases "apply_samples env chunk dict parents (st, g, [])")
  define st2 where "st2 = decode_and_check env (sampling_params g) cs st1"
  have early: "childless_parents st g samples = filter (\<lambda>p. dict p = []) parents"
    by (simp add: childless_parents_filter dict_def parents_def)
  have calls2: "scheduler_calls st2 = scheduler_calls st @ map FreeSeq (childless_parents st g samples)"
    using apply_samples_calls[OF ap] by (simp add: st2_def early)
  have pairs: "p \<notin> set (childless_parents st g samples)" if "(s, p) \<in> set cs" for s p
    using apply_samples_pairs[OF ap that] by (simp add: early)
  from assms have ok: "list_all (\<lambda>sample. parent_seq_id sample \<in> set parents) samples"
    by (simp add: process_sequence_group_samples_def Let_def parents_def split: if_splits)
  have ac: "apply_and_check env st g chunk samples = (st2, g1, cs)"
    using ap by (simp add: apply_and_check_def Let_def parents_def dict_def st2_def)
  show ?thesis
  proof (cases "use_beam_search (sampling_params g)")
    case False
    obtain st3 g3 where af: "add_and_fork cs (st2, g1) = (st3, g3)"
      by (cases "add_and_fork cs (st2, g1)")
    with assms ok ac False have st': "st' = free_finished_parents cs st3"
      by (simp add: process_sequence_group_samples_def Let_def parents_def[symmetric])
    let ?frees = "map (\<lambda>(seq, parent). FreeSeq seq)
                    (filter (\<lambda>(seq, parent). seq = parent \<and> is_finished (seqs st3 seq)) cs)"
    have "scheduler_calls st' =
            scheduler_calls st @ map FreeSeq (childless_parents st g samples)
            @ fork_calls st2 cs @ ?frees"
      using add_and_fork_calls[OF af] by (simp add: st' free_finished_parents_calls calls2)
    moreover have "list_all is_free ?frees" by (auto simp: list_all_iff)
    ultimately show ?thesis using pairs by blast
  next
    case True
    with assms ok ac have
      "beam_branch env st2 g1 (get_finished_seqs st g) cs = Inr (st', g')"
      by (simp add: process_sequence_group_samples_def Let_def parents_def[symmetric])
    from beam_branch_calls[OF this] obtain sel frees where
      h: "set sel \<subseteq> set cs" "list_all is_free frees"
         "scheduler_calls st' = scheduler_calls st2 @ fork_calls st2 sel @ frees"
      by blast
    from h(1) pairs have "\<forall>(s, p) \<in> set sel. p \<notin> set (childless_parents st g samples)"
      by auto
    with h(2,3) calls2 show ?thesis by auto
  qed
qed

lemma example_beam_calls:
  "map_sum id (\<lambda>(st', g'). (scheduler_calls st', seq_ids g'))
     (process_sequence_group_samples example_env example_state example_beam_group 0
        [example_sample 1 40, example_sample 1 41])
   = Inr ([FreeSeq 0, ForkSeq 1 2], [1, 2])"
  by (simp add: example_defs example_beam_group_def sequence_defs processor_defs Let_def)

text \<open>
  C1, as the claim states it, fails: a running parent that receives no sample is freed
  while the samples are applied, before the children of the other parents are forked.
  In a beam-search group of width 2 whose two samples both descend from sequence 1,
  sequence 0 is freed first and then sequence 2 is forked from sequence 1.
\<close>

theorem free_issued_before_fork:
  "issued_calls example_env example_state example_beam_group 0
     [example_sample 1 40, example_sample 1 41] = [FreeSeq 0, ForkSeq 1 2]
   \<and> \<not> forks_precede_frees
         (issued_calls example_env example_state example_beam_group 0
            [example_sample 1 40, example_sample 1 41])"
  using example_beam_calls
  by (auto simp: issued_calls_def example_state_def split: sum.splits)

text \<open>
  C1, amended: when \<^verbatim>\<open>_process_sequence_group_samples\<close> returns, the scheduler calls it
  issued are, in this order, a \<^verbatim>\<open>free_seq\<close> for every running parent that received no
  sample, and then calls among which no \<^verbatim>\<open>free_seq\<close> stands before a \<^verbatim>\<open>fork_seq\<close>; and
  no parent freed early is the parent of a \<^verbatim>\<open>fork_seq\<close> call.
\<close>

theorem forks_after_early_frees:
  assumes "process_sequence_group_samples env st g chunk samples = Inr (st', g')"
  shows "(let calls = issued_calls env st g chunk samples;
              early = childless_parents st g samples
          in scheduler_calls st' = scheduler_calls st @ calls
             \<and> take (length early) calls = map FreeSeq early
             \<and> forks_precede_frees (drop (length early) calls)
             \<and> list_all (\<lambda>c. case c of ForkSeq parent child \<Rightarrow> parent \<notin> set early | _ \<Rightarrow> True)
                 calls)"
proof -
  from process_calls[OF assms] obtain st2 sel frees where
    h: "\<forall>(s, p) \<in> set sel. p \<notin> set (childless_parents st g samples)"
       "list_all is_free frees"
       "scheduler_calls st' =
          scheduler_calls st @ map FreeSeq (childless_parents st g samples)
          @ fork_calls st2 sel @ frees"
    by blast
  let ?early = "childless_parents st g samples"
  have calls: "issued_calls env st g chunk samples = map FreeSeq ?early @ fork_calls st2 sel @ frees"
    by (simp add: issued_calls_def assms h(3))
  have "forks_precede_frees (fork_calls st2 sel @ frees)"
    by (intro forks_precede_frees_append list_all_is_fork h(2))
  moreover have "list_all (\<lambda>c. case c of ForkSeq parent child \<Rightarrow> parent \<notin> set ?early | _ \<Rightarrow> True)
                   (map FreeSeq ?early @ fork_calls st2 sel @ frees)"
    using h(1,2)
    by (auto simp: list_all_iff dest!: fork_calls_parent split: SchedulerCall.splits
        elim: is_free.elims)
  ultimately show ?thesis
    by (simp add: calls h(3) Let_def)
qed


theorem forks_after_early_frees_witness:
  "process_sequence_group_samples example_env example_state example_beam_group 0
     [example_sample 1 40, example_sample 1 41]
   = Inr (projr (process_sequence_group_samples example_env example_state example_beam_group 0
                   [example_sample 1 40, example_sample 1 41]))
   \<and> childless_parents example_state example_beam_group
        [example_sample 1 40, example_sample 1 41] = [0]
   \<and> take 1 (issued_calls example_env example_state example_beam_group 0
                [example_sample 1 40, example_sample 1 41]) = [FreeSeq 0]
   \<and> forks_precede_frees
        (drop 1 (issued_calls example_env example_state example_beam_group 0
                   [example_sample 1 40, example_sample 1 41]))"
proof -
  let ?r = "process_sequence_group_samples example_env example_state example_beam_group 0
              [example_sample 1 40, example_sample 1 41]"
  from example_beam_calls have r: "?r = Inr (fst (projr ?r), snd (projr ?r))"
    by (cases ?r) auto
  have early: "childless_parents example_state example_beam_group
        [example_sample 1 40, example_sample 1 41] = [0]"
    by (simp add: childless_parents_def get_seqs_with_status_def example_defs
        example_beam_group_def)
  from forks_after_early_frees[OF r] early r show ?thesis
    by (simp add: Let_def)
qed


section \<open>Beam search: when to stop\<close>

text \<open>
  C5: in the beam-search branch, with \<open>fin\<close> the finished sequences sorted by score and
  \<open>run\<close> the running children sorted by score: the search stops when no child runs; it
  goes on when a child runs and fewer than \<^verbatim>\<open>beam_width\<close> sequences are finished;
  otherwise, with \<open>best\<close> the first running child (no running child scores higher) and
  \<open>worst\<close> the entry at position \<^verbatim>\<open>beam_width - 1\<close> (no entry of the top \<^verbatim>\<open>beam_width\<close>
  scores lower), it stops always for \<^verbatim>\<open>early_stopping = True\<close>, for \<^verbatim>\<open>False\<close> iff the
  score of \<open>worst\<close> is at least the score of \<open>best\<close> at its current length, and for
  \<^verbatim>\<open>"never"\<close> iff it is at least the score of \<open>best\<close> at length
  \<^verbatim>\<open>max(prompt_len + max_tokens, max_model_len)\<close> when the length penalty is positive and
  at its current length otherwise.
\<close>

theorem beam_search_stop_decision:
  fixes env st sp existing child_seqs
  defines "lp \<equiv> length_penalty sp"
    and "bw \<equiv> best_of sp"
    and "eos \<equiv> eos_token_id env"
  defines "fin \<equiv> all_finished_seqs env st lp existing child_seqs"
    and "run \<equiv> running_child_seqs env st lp child_seqs"
  defines "stop_now \<equiv> stop_beam_search env st sp fin run"
    and "best \<equiv> fst (hd run)"
    and "worst \<equiv> fst (fin ! (nat bw - 1))"
  assumes "use_beam_search sp" and "1 \<le> best_of sp"
  shows "(run = [] \<longrightarrow> stop_now = Inr True)
    \<and> (run \<noteq> [] \<and> int (length fin) < bw \<longrightarrow> stop_now = Inr False)
    \<and> (run \<noteq> [] \<and> bw \<le> int (length fin) \<longrightarrow>
         (\<forall>x \<in> set run. beam_score env st lp (fst x) \<le> beam_score env st lp best)
         \<and> (\<forall>x \<in> set (take (nat bw) fin). beam_score env st lp worst \<le> beam_score env st lp (fst x))
         \<and> (early_stopping sp = ES_Bool True \<longrightarrow> stop_now = Inr True)
         \<and> (early_stopping sp = ES_Bool False \<longrightarrow>
               stop_now = Inr (beam_score env st lp worst \<ge> beam_score env st lp best))
         \<and> (early_stopping sp = ES_Str ''never'' \<longrightarrow>
               stop_now =
                 Inr (beam_score env st lp worst
                      \<ge> (if lp > 0
                          then get_beam_search_score env (seqs st best) lp eos
                                 (Some (max (int (get_prompt_len (seqs st best)) + max_tokens sp)
                                          (max_model_len env)))
                          else beam_score env st lp best))))"
proof (intro conjI impI)
  assume "run = []"
  then show "stop_now = Inr True" by (simp add: stop_now_def stop_beam_search_def)
next
  assume "run \<noteq> [] \<and> int (length fin) < bw"
  then show "stop_now = Inr False" by (simp add: stop_now_def stop_beam_search_def bw_def)
next
  assume a: "run \<noteq> [] \<and> bw \<le> int (length fin)"
  show "\<forall>x \<in> set run. beam_score env st lp (fst x) \<le> beam_score env st lp best"
  proof
    fix x assume "x \<in> set run"
    then have "x \<in> set (filter (\<lambda>(seq, parent). \<not> is_finished (seqs st seq)) child_seqs)"
      by (simp add: run_def running_child_seqs_def)
    from sort_desc_hd_max[OF this, of "\<lambda>x. beam_score env st lp (fst x)"]
    show "beam_score env st lp (fst x) \<le> beam_score env st lp best"
      by (simp add: run_def best_def running_child_seqs_def)
  qed
  have bw: "0 < nat bw" "nat bw \<le> length fin" using a assms(10) unfolding bw_def by linarith+
  show "\<forall>x \<in> set (take (nat bw) fin). beam_score env st lp worst \<le> beam_score env st lp (fst x)"
  proof
    fix x assume x: "x \<in> set (take (nat bw) fin)"
    show "beam_score env st lp worst \<le> beam_score env st lp (fst x)"
      using bw x unfolding fin_def worst_def all_finished_seqs_def
      by (intro sort_desc_take_min[where f = "\<lambda>x. beam_score env st lp (fst x)"]) simp_all
  qed
  have sub1: "subscript run 0 = Inr (hd run)" using a by (simp add: subscript_0)
  have "nat (bw - 1) = nat bw - 1" by simp
  then have sub2: "subscript fin (bw - 1) = Inr (fin ! (nat bw - 1))"
    using a assms(10) by (simp add: subscript_nth bw_def)
  have sb: "stop_now = check_beam_search_early_stopping env (early_stopping sp) sp
                  (seqs st best) (seqs st worst)"
    using a sub1 sub2
    by (simp add: stop_now_def stop_beam_search_def bw_def[symmetric] best_def worst_def)
  { assume "early_stopping sp = ES_Bool True"
    then show "stop_now = Inr True"
      using assms(9) by (simp add: sb check_beam_search_early_stopping_def) }
  { assume "early_stopping sp = ES_Bool False"
    then show "stop_now = Inr (beam_score env st lp worst \<ge> beam_score env st lp best)"
      using assms(9)
      by (simp add: sb check_beam_search_early_stopping_def beam_score_def lp_def eos_def
          Let_def) }
  { assume "early_stopping sp = ES_Str ''never''"
    then show "stop_now =
                 Inr (beam_score env st lp worst
                      \<ge> (if lp > 0
                          then get_beam_search_score env (seqs st best) lp eos
                                 (Some (max (int (get_prompt_len (seqs st best)) + max_tokens sp)
                                          (max_model_len env)))
                          else beam_score env st lp best))"
      using assms(9)
      by (simp add: sb check_beam_search_early_stopping_def beam_score_def lp_def eos_def Let_def) }
qed


theorem beam_search_stop_decision_witness:
  "use_beam_search (example_beam_params (ES_Bool False))
   \<and> 1 \<le> best_of (example_beam_params (ES_Bool False))
   \<and> running_child_seqs example_env example_beam_state 1 [(2, 2)] = [(2, 2)]
   \<and> all_finished_seqs example_env example_beam_state 1 [0, 1] [(2, 2)]
       = [(1, None, False), (0, None, False)]
   \<and> stop_beam_search example_env example_beam_state (example_beam_params (ES_Bool False))
        [(1, None, False), (0, None, False)] [(2, 2)] = Inr True
   \<and> stop_beam_search example_env example_beam_state (example_beam_params (ES_Str ''never''))
        [(1, None, False), (0, None, False)] [(2, 2)] = Inr False"
  using beam_search_stop_decision [where sp = "example_beam_params (ES_Bool False)"
      and env = example_env and st = example_beam_state and existing = "[0, 1]"
      and child_seqs = "[(2, 2)]"]
    beam_search_stop_decision [where sp = "example_beam_params (ES_Str ''never'')"
      and env = example_env and st = example_beam_state and existing = "[0, 1]"
      and child_seqs = "[(2, 2)]"]
  by (simp add: example_defs sequence_defs processor_defs)

section \<open>Beam search: ranking and selection of the finished sequences\<close>

subsection \<open>The stable sort against the spec's ranking\<close>

lemma insort_key_lex:
  fixes k :: "'a \<Rightarrow> real" and t :: "'a \<Rightarrow> nat"
  assumes "\<forall>y \<in> set ys. fst x < fst y"
  shows "insort_key (\<lambda>(i, e). (k e, i, t e)) x ys = insort_key (\<lambda>(i, e). k e) x ys"
  using assms
proof (induction ys)
  case Nil
  then show ?case by simp
next
  case (Cons y ys)
  obtain i e where x: "x = (i, e)" by (cases x)
  obtain j d where y: "y = (j, d)" by (cases y)
  from Cons.prems x y have "i < j" by simp
  then have "((k e, i, t e) \<le> (k d, j, t d)) = (k e \<le> k d)"
    by auto
  with Cons x y show ?case by simp
qed

lemma sort_key_enumerate_lex:
  fixes k :: "'a \<Rightarrow> real" and t :: "'a \<Rightarrow> nat"
  shows "sort_key (\<lambda>(i, e). (k e, i, t e)) (enumerate n xs)
       = sort_key (\<lambda>(i, e). k e) (enumerate n xs)"
proof (induction xs arbitrary: n)
  case Nil
  then show ?case by simp
next
  case (Cons x xs)
  have "\<forall>y \<in> set (sort_key (\<lambda>(i, e). k e) (enumerate (Suc n) xs)). fst (n, x) < fst y"
    by (auto simp: in_set_enumerate_eq)
  from insort_key_lex[OF this, of k t] Cons.IH[of "Suc n"] show ?case
    by simp
qed

lemma map_snd_insort_key:
  "map snd (insort_key (\<lambda>(i, e). k e) x ys) = insort_key k (snd x) (map snd ys)"
  by (induction ys) (auto simp: case_prod_unfold)

lemma map_snd_sort_key:
  "map snd (sort_key (\<lambda>(i, e). k e) ies) = sort_key k (map snd ies)"
  by (induction ies) (simp_all add: map_snd_insort_key)

lemma ranked_by_spec_sort_desc: "ranked_by_spec score entries = sort_desc score entries"
proof -
  have "map snd (sort_key (\<lambda>(i, e). (- score e, i, fst e)) (enumerate 0 entries))
        = map snd (sort_key (\<lambda>(i, e). - score e) (enumerate 0 entries))"
    by (simp add: sort_key_enumerate_lex[of "\<lambda>e. - score e" fst])
  also have "\<dots> = sort_key (\<lambda>e. - score e) (map snd (enumerate 0 entries))"
    by (rule map_snd_sort_key)
  finally show ?thesis
    by (simp add: ranked_by_spec_def sort_desc_def)
qed


subsection \<open>Members of the group and ids of the children\<close>

lemma group_add_simps [simp]:
  "set (seq_ids (group_add i g)) = insert i (set (seq_ids g))"
  "sampling_params (group_add i g) = sampling_params g"
  by (auto simp: group_add_def)

lemma group_remove_simps [simp]:
  "set (seq_ids (group_remove i g)) = set (seq_ids g) - {i}"
  "sampling_params (group_remove i g) = sampling_params g"
  by (auto simp: group_remove_def)

lemma drop_low_result:
  "drop_low es (g, u) = (g', u') \<Longrightarrow>
   set (seq_ids g') = set (seq_ids g) - {s. \<exists>p. (s, p, False) \<in> set es}
   \<and> u' = u @ select_new es \<and> sampling_params g' = sampling_params g"
proof (induction es "(g, u)" arbitrary: g u rule: drop_low.induct)
  case 1
  then show ?case by simp
next
  case (2 seq parent rest g unselected)
  then show ?case by auto
next
  case (3 seq rest g unselected)
  then show ?case by auto
next
  case (4 seq parent rest g unselected)
  from 4(1)[OF 4(2)[simplified]] show ?case by auto
qed

lemma add_and_fork_members:
  "add_and_fork cs (st, g) = (st', g') \<Longrightarrow>
   set (seq_ids g') = set (seq_ids g) \<union> {s. \<exists>p. (s, p) \<in> set cs \<and> s \<noteq> p}"
proof (induction cs arbitrary: st g)
  case Nil
  then show ?case by simp
next
  case (Cons a cs)
  obtain seq parent where a: "a = (seq, parent)" by (cases a)
  show ?case
  proof (cases "seq = parent")
    case True
    with Cons.prems a have "add_and_fork cs (st, g) = (st', g')" by simp
    from Cons.IH[OF this] True a show ?thesis by auto
  next
    case False
    with Cons.prems a obtain st1 where "add_and_fork cs (st1, group_add seq g) = (st', g')"
      by (auto split: if_splits)
    from Cons.IH[OF this] False a show ?thesis by auto
  qed
qed

lemma remove_unselected_members:
  "remove_unselected cs (st, g) = (st', g') \<Longrightarrow>
   set (seq_ids g') = set (seq_ids g) - {s. (s, s) \<in> set cs}"
proof (induction cs arbitrary: st g)
  case Nil
  then show ?case by simp
next
  case (Cons a cs)
  obtain seq parent where a: "a = (seq, parent)" by (cases a)
  show ?case
  proof (cases "seq = parent")
    case True
    with Cons.prems a have
      "remove_unselected cs (scheduler_call (FreeSeq seq) st, group_remove seq g) = (st', g')"
      by simp
    from Cons.IH[OF this] True a show ?thesis by auto
  next
    case False
    with Cons.prems a have "remove_unselected cs (st, g) = (st', g')" by simp
    from Cons.IH[OF this] False a show ?thesis by auto
  qed
qed

lemma fork_children_ids:
  "fork_children env parent chunk smps (st, cs) = (st', cs') \<Longrightarrow>
   cs' = cs @ map (\<lambda>k. (k, parent)) [seq_counter st ..< seq_counter st + length smps]
   \<and> seq_counter st' = seq_counter st + length smps"
proof (induction smps arbitrary: st cs)
  case Nil
  then show ?case by simp
next
  case (Cons a smps)
  let ?st1 = "st\<lparr>seqs := (seqs st)(seq_counter st :=
                        append_token_id env (seqs st parent) a chunk),
                  seq_counter := Suc (seq_counter st)\<rparr>"
  from Cons.prems have
    "fork_children env parent chunk smps (?st1, cs @ [(seq_counter st, parent)]) = (st', cs')"
    by (simp add: Let_def)
  from Cons.IH[OF this] have
    "cs' = (cs @ [(seq_counter st, parent)])
             @ map (\<lambda>k. (k, parent)) [Suc (seq_counter st) ..< Suc (seq_counter st) + length smps]"
    and "seq_counter st' = Suc (seq_counter st) + length smps"
    by simp_all
  moreover have "[seq_counter st ..< seq_counter st + length (a # smps)]
                 = seq_counter st # [Suc (seq_counter st) ..< Suc (seq_counter st) + length smps]"
    by (subst upt_conv_Cons) (simp_all del: upt_Suc)
  ultimately show ?case by (simp del: upt_Suc)
qed

lemma apply_samples_group:
  "apply_samples env chunk dict parents (st, g, cs) = (st', g', cs') \<Longrightarrow>
   set (seq_ids g') = set (seq_ids g) - {p \<in> set parents. dict p = []}
   \<and> sampling_params g' = sampling_params g"
proof (induction parents arbitrary: st g cs)
  case Nil
  then show ?case by simp
next
  case (Cons parent rest)
  show ?case
  proof (cases "dict parent = []")
    case True
    with Cons.prems obtain st1 where
      "apply_samples env chunk dict rest (st1, group_remove parent g, cs) = (st', g', cs')"
      by (simp add: Let_def)
    from Cons.IH[OF this] True show ?thesis by auto
  next
    case False
    obtain st1 cs1 where
      f: "fork_children env parent chunk (butlast (dict parent)) (st, cs) = (st1, cs1)"
      by (cases "fork_children env parent chunk (butlast (dict parent)) (st, cs)")
    with False Cons.prems obtain st2 cs2 where
      "apply_samples env chunk dict rest (st2, g, cs2) = (st', g', cs')"
      by (simp add: Let_def)
    from Cons.IH[OF this] False show ?thesis by auto
  qed
qed

lemma apply_samples_ids:
  assumes "apply_samples env chunk dict parents (st, g, cs) = (st', g', cs')"
    and "distinct parents" and "\<forall>p \<in> set parents. p < seq_counter st"
  shows "\<exists>new. cs' = cs @ new \<and> distinct (map fst new)
           \<and> seq_counter st \<le> seq_counter st'
           \<and> (\<forall>(s, p) \<in> set new.
                 (s = p \<and> p \<in> set parents \<and> dict p \<noteq> [])
                 \<or> (s \<noteq> p \<and> seq_counter st \<le> s \<and> s < seq_counter st'))"
  using assms
proof (induction parents arbitrary: st g cs)
  case Nil
  then show ?case by simp
next
  case (Cons parent rest)
  show ?case
  proof (cases "dict parent = []")
    case True
    let ?st1 = "scheduler_call (FreeSeq parent) (update_seq parent (set_status FINISHED_ABORTED) st)"
    from True Cons.prems have
      ap: "apply_samples env chunk dict rest (?st1, group_remove parent g, cs) = (st', g', cs')"
      by (simp add: Let_def)
    have c: "seq_counter ?st1 = seq_counter st"
      by (simp add: scheduler_call_def update_seq_def)
    from Cons.prems(2,3) have "distinct rest" "\<forall>p \<in> set rest. p < seq_counter ?st1"
      by (simp_all add: c)
    from Cons.IH[OF ap this] obtain new where
      "cs' = cs @ new" "distinct (map fst new)" "seq_counter st \<le> seq_counter st'"
      "\<forall>(s, p) \<in> set new.
          (s = p \<and> p \<in> set rest \<and> dict p \<noteq> [])
          \<or> (s \<noteq> p \<and> seq_counter st \<le> s \<and> s < seq_counter st')"
      unfolding c by blast
    then show ?thesis by (intro exI[of _ new]) auto
  next
    case False
    define n where "n = length (butlast (dict parent))"
    define c where "c = seq_counter st"
    obtain st1 cs1 where
      f: "fork_children env parent chunk (butlast (dict parent)) (st, cs) = (st1, cs1)"
      by (cases "fork_children env parent chunk (butlast (dict parent)) (st, cs)")
    from fork_children_ids[OF f] have
      cs1: "cs1 = cs @ map (\<lambda>k. (k, parent)) [c ..< c + n]"
      and c1: "seq_counter st1 = c + n"
      by (simp_all add: n_def c_def)
    let ?st2 = "update_seq parent
                  (\<lambda>seq. append_token_id env seq (last (dict parent)) chunk) st1"
    have c2: "seq_counter ?st2 = c + n"
      by (simp add: update_seq_def c1)
    from False f Cons.prems have
      ap: "apply_samples env chunk dict rest (?st2, g, cs1 @ [(parent, parent)]) = (st', g', cs')"
      by (simp add: Let_def)
    from Cons.prems(2,3) have "distinct rest" "\<forall>p \<in> set rest. p < seq_counter ?st2"
      unfolding c2 by (auto simp: c_def)
    from Cons.IH[OF ap this] obtain new where new:
      "cs' = (cs1 @ [(parent, parent)]) @ new" "distinct (map fst new)"
      "c + n \<le> seq_counter st'"
      "\<forall>(s, p) \<in> set new.
          (s = p \<and> p \<in> set rest \<and> dict p \<noteq> [])
          \<or> (s \<noteq> p \<and> c + n \<le> s \<and> s < seq_counter st')"
      unfolding c2 by blast
    let ?new = "map (\<lambda>k. (k, parent)) [c ..< c + n] @ [(parent, parent)] @ new"
    have pc: "parent < c" "parent \<notin> set rest" "\<forall>p \<in> set rest. p < c"
      using Cons.prems(2,3) by (auto simp: c_def)
    have fst_new: "\<forall>x \<in> set new. fst x \<noteq> parent \<and> \<not> (c \<le> fst x \<and> fst x < c + n)"
      using new(4) pc by fastforce
    have "distinct (map fst ?new)"
      using new(2) pc(1) fst_new by (auto simp: distinct_map comp_def inj_on_def)
    moreover have "cs' = cs @ ?new" using new(1) cs1 by simp
    moreover have "seq_counter st \<le> seq_counter st'" using new(3) by (simp add: c_def)
    moreover have "\<forall>(s, p) \<in> set ?new.
                 (s = p \<and> p \<in> set (parent # rest) \<and> dict p \<noteq> [])
                 \<or> (s \<noteq> p \<and> seq_counter st \<le> s \<and> s < seq_counter st')"
      using new(3,4) pc False by (fastforce simp: c_def)
    ultimately show ?thesis by blast
  qed
qed


lemma is_finished_not_running: "is_finished seq \<Longrightarrow> status seq \<noteq> RUNNING"
  by (auto simp: is_finished_def)

lemma decode_and_check_counter [simp]:
  "seq_counter (decode_and_check env sp cs st) = seq_counter st"
  by (induction cs arbitrary: st) auto

lemma apply_and_check_facts:
  assumes ac: "apply_and_check env st g chunk samples = (st2, g1, cs)"
    and d: "distinct (seq_ids g)"
    and c: "\<forall>i \<in> set (seq_ids g). i < seq_counter st"
  shows "distinct (get_finished_seqs st g @ map fst cs)"
    and "\<forall>(s, p) \<in> set cs. (s = p \<longrightarrow> s \<in> set (seq_ids g1)) \<and> (s \<noteq> p \<longrightarrow> s \<notin> set (seq_ids g1))"
    and "sampling_params g1 = sampling_params g"
proof -
  define parents where "parents = get_seqs_with_status st g RUNNING"
  define dict where "dict = (\<lambda>p. filter (\<lambda>sample. parent_seq_id sample = p) samples)"
  obtain st1 g1' cs' where ap: "apply_samples env chunk dict parents (st, g, []) = (st1, g1', cs')"
    by (cases "apply_samples env chunk dict parents (st, g, [])")
  with ac have eq: "g1' = g1" "cs' = cs"
    by (simp_all add: apply_and_check_def Let_def parents_def dict_def)
  have dp: "distinct parents" and pc: "\<forall>p \<in> set parents. p < seq_counter st"
    and ps: "set parents \<subseteq> set (seq_ids g)"
    using d c by (auto simp: parents_def get_seqs_with_status_def)
  from apply_samples_ids[OF ap dp pc] eq have
    dcs: "distinct (map fst cs)"
    and ids: "\<forall>(s, p) \<in> set cs.
                 (s = p \<and> p \<in> set parents \<and> dict p \<noteq> [])
                 \<or> (s \<noteq> p \<and> seq_counter st \<le> s)"
    by auto
  from apply_samples_group[OF ap] eq have
    grp: "set (seq_ids g1) = set (seq_ids g) - {p \<in> set parents. dict p = []}"
    and "sampling_params g1 = sampling_params g"
    by simp_all
  then show "sampling_params g1 = sampling_params g" by simp
  show "\<forall>(s, p) \<in> set cs. (s = p \<longrightarrow> s \<in> set (seq_ids g1)) \<and> (s \<noteq> p \<longrightarrow> s \<notin> set (seq_ids g1))"
    using ids grp ps c by fastforce
  have "distinct (get_finished_seqs st g)"
    using d by (simp add: get_finished_seqs_def)
  moreover have "set (get_finished_seqs st g) \<inter> fst ` set cs = {}"
  proof -
    { fix s p assume s: "s \<in> set (get_finished_seqs st g)" and sp: "(s, p) \<in> set cs"
      from s have "s \<in> set (seq_ids g)" "status (seqs st s) \<noteq> RUNNING"
        by (auto simp: get_finished_seqs_def dest: is_finished_not_running)
      then have "s \<notin> set parents" "s < seq_counter st"
        using c by (auto simp: parents_def get_seqs_with_status_def)
      with ids sp have False by fastforce }
    then show ?thesis by auto
  qed
  ultimately show "distinct (get_finished_seqs st g @ map fst cs)"
    using dcs by auto
qed

lemma set_insort_key_map:
  "distinct (map g (insort_key f x xs)) = (g x \<notin> g ` set xs \<and> distinct (map g xs))"
  by (induction xs) (auto simp: set_insort_key)

lemma distinct_map_sort_key: "distinct (map g (sort_key f xs)) = distinct (map g xs)"
  by (induction xs) (simp_all add: set_insort_key_map)

lemma slice_to_from: "slice_to n xs @ slice_from n xs = xs"
  by (simp add: slice_to_def slice_from_def)

lemma slices_disjoint_keys:
  assumes "distinct (map fst xs)" "x \<in> set (slice_to n xs)" "y \<in> set (slice_from n xs)"
  shows "fst x \<noteq> fst y"
proof -
  from assms(1) have "distinct (map fst (slice_to n xs) @ map fst (slice_from n xs))"
    by (simp add: slice_to_from flip: map_append)
  with assms(2,3) show ?thesis by (auto simp: image_iff)
qed

lemma select_new_iff: "(s, p) \<in> set (select_new es) \<longleftrightarrow> (s, Some p, True) \<in> set es"
  by (induction es rule: select_new.induct) auto


lemma finished_candidates_new:
  "(s, p, True) \<in> set (finished_candidates st existing cs) \<Longrightarrow>
   \<exists>q. p = Some q \<and> (s, q) \<in> set cs \<and> is_finished (seqs st s)"
  by (auto simp: finished_candidates_def)

lemma finished_candidates_old:
  "(s, p, False) \<in> set (finished_candidates st existing cs) \<Longrightarrow> p = None \<and> s \<in> set existing"
  by (auto simp: finished_candidates_def)

lemma finished_candidates_keys:
  "distinct (existing @ map fst cs) \<Longrightarrow> distinct (map fst (finished_candidates st existing cs))"
  by (auto simp: finished_candidates_def comp_def case_prod_unfold distinct_map_filter)

lemma beam_branch_members:
  assumes bb: "beam_branch env st g existing cs = Inr (st', g')"
    and D: "distinct (existing @ map fst cs)"
    and M: "\<forall>(s, p) \<in> set cs. (s = p \<longrightarrow> s \<in> set (seq_ids g)) \<and> (s \<noteq> p \<longrightarrow> s \<notin> set (seq_ids g))"
  defines "fin \<equiv> all_finished_seqs env st (length_penalty (sampling_params g)) existing cs"
    and "bw \<equiv> best_of (sampling_params g)"
  shows "(s, p, True) \<in> set (slice_to bw fin) \<Longrightarrow> s \<in> set (seq_ids g')"
    and "(s, p, b) \<in> set (slice_from bw fin) \<Longrightarrow> s \<notin> set (seq_ids g')"
proof -
  define sp where "sp = sampling_params g"
  define run where "run = running_child_seqs env st (length_penalty sp) cs"
  define selected where "selected = select_new (slice_to bw fin)"
  obtain g1 unselected where dl: "drop_low (slice_from bw fin) (g, []) = (g1, unselected)"
    by (cases "drop_low (slice_from bw fin) (g, [])")
  from bb obtain stop_now where sn: "stop_beam_search env st sp fin run = Inr stop_now"
    by (auto simp: beam_branch_def Let_def sp_def fin_def run_def split: prod.splits sum.splits)
  define sel where "sel = (if stop_now then selected else selected @ slice_to bw run)"
  define unsel where "unsel = (if stop_now then unselected @ run
                               else unselected @ slice_from bw run)"
  obtain st2 g2 where af: "add_and_fork sel (st, g1) = (st2, g2)"
    by (cases "add_and_fork sel (st, g1)")
  from bb dl sn af have ru:
    "remove_unselected unsel (free_finished_parents sel st2, g2) = (st', g')"
    unfolding sel_def unsel_def selected_def fin_def run_def sp_def bw_def
    by (simp add: beam_branch_def Let_def)
  from drop_low_result[OF dl] have
    g1: "set (seq_ids g1) = set (seq_ids g) - {s. \<exists>p. (s, p, False) \<in> set (slice_from bw fin)}"
    and unselected: "unselected = select_new (slice_from bw fin)"
    by simp_all
  have members: "set (seq_ids g') =
      ((set (seq_ids g) - {s. \<exists>p. (s, p, False) \<in> set (slice_from bw fin)})
       \<union> {s. \<exists>p. (s, p) \<in> set sel \<and> s \<noteq> p}) - {s. (s, s) \<in> set unsel}"
    using remove_unselected_members[OF ru] add_and_fork_members[OF af] g1 by simp
  have dfin: "distinct (map fst fin)"
    using finished_candidates_keys[OF D, of st]
    by (simp add: fin_def all_finished_seqs_def sort_desc_def distinct_map_sort_key)
  have set_fin: "set fin = set (finished_candidates st existing cs)"
    by (simp add: fin_def all_finished_seqs_def)
  have top: "set (slice_to bw fin) \<subseteq> set fin" and low: "set (slice_from bw fin) \<subseteq> set fin"
    by (rule set_slice_to, rule set_slice_from)
  have run_cs: "(s, q) \<in> set cs \<and> \<not> is_finished (seqs st s)" if "(s, q) \<in> set run" for s q
    using that by (auto simp: run_def running_child_seqs_def)
  have run_to: "set (slice_to bw run) \<subseteq> set run" and run_from: "set (slice_from bw run) \<subseteq> set run"
    by (rule set_slice_to, rule set_slice_from)
  have fun_cs: "q = q'" if "(s, q) \<in> set cs" "(s, q') \<in> set cs" for s q q'
    using D that by (auto dest: eq_key_imp_eq_value)
  have old_cs: "(s, q) \<notin> set cs" if "s \<in> set existing" for s q
  proof
    assume "(s, q) \<in> set cs"
    then have "s \<in> fst ` set cs" by force
    with D that show False by auto
  qed
  have sel_cases: "(s, Some q, True) \<in> set (slice_to bw fin) \<or> (s, q) \<in> set run"
    if "(s, q) \<in> set sel" for s q
    using that run_to by (auto simp: sel_def selected_def select_new_iff split: if_splits)
  have unsel_cases: "(s, Some q, True) \<in> set (slice_from bw fin) \<or> (s, q) \<in> set run"
    if "(s, q) \<in> set unsel" for s q
    using that run_from by (auto simp: unsel_def unselected select_new_iff split: if_splits)
  { assume a: "(s, p, True) \<in> set (slice_to bw fin)"
    with top set_fin have "(s, p, True) \<in> set (finished_candidates st existing cs)" by auto
    from finished_candidates_new[OF this] obtain q where
      q: "p = Some q" "(s, q) \<in> set cs" "is_finished (seqs st s)" by blast
    have in_sel: "(s, q) \<in> set sel"
      using a q(1) by (auto simp: sel_def selected_def select_new_iff)
    have not_removed: "(s, s) \<notin> set unsel"
    proof
      assume "(s, s) \<in> set unsel"
      from unsel_cases[OF this] show False
      proof
        assume "(s, Some s, True) \<in> set (slice_from bw fin)"
        from slices_disjoint_keys[OF dfin a this] show False by simp
      next
        assume "(s, s) \<in> set run"
        with run_cs q(3) show False by blast
      qed
    qed
    show "s \<in> set (seq_ids g')"
    proof (cases "s = q")
      case False
      with in_sel not_removed show ?thesis by (auto simp: members)
    next
      case True
      with M q(2) have "s \<in> set (seq_ids g)" by auto
      moreover have "(s, p', False) \<notin> set (slice_from bw fin)" for p'
        using slices_disjoint_keys[OF dfin a] by fastforce
      ultimately show ?thesis using not_removed by (auto simp: members)
    qed }
  { assume a: "(s, p, b) \<in> set (slice_from bw fin)"
    have not_added: "\<not> (\<exists>q. (s, q) \<in> set sel \<and> s \<noteq> q)" if "is_finished (seqs st s) \<or> s \<in> set existing"
    proof
      assume "\<exists>q. (s, q) \<in> set sel \<and> s \<noteq> q"
      then obtain q where q: "(s, q) \<in> set sel" by blast
      from sel_cases[OF q] show False
      proof
        assume "(s, Some q, True) \<in> set (slice_to bw fin)"
        from slices_disjoint_keys[OF dfin this a] show False by simp
      next
        assume "(s, q) \<in> set run"
        with run_cs that old_cs show False by blast
      qed
    qed
    show "s \<notin> set (seq_ids g')"
    proof (cases b)
      case False
      with a low set_fin have "(s, p, False) \<in> set (finished_candidates st existing cs)" by auto
      from finished_candidates_old[OF this] have "s \<in> set existing" by simp
      with not_added a False show ?thesis by (auto simp: members)
    next
      case True
      with a low set_fin have "(s, p, True) \<in> set (finished_candidates st existing cs)" by auto
      from finished_candidates_new[OF this] obtain q where
        q: "p = Some q" "(s, q) \<in> set cs" "is_finished (seqs st s)" by blast
      show ?thesis
      proof (cases "s = q")
        case True
        with a q(1) \<open>b\<close> have "(s, s) \<in> set unsel"
          by (auto simp: unsel_def unselected select_new_iff)
        then show ?thesis by (simp add: members)
      next
        case False
        with M q(2) have "s \<notin> set (seq_ids g)" by auto
        with not_added q(3) show ?thesis by (auto simp: members)
      qed
    qed }
qed


lemma example_prune_ranking:
  "beam_ranking example_env example_prune_state example_prune_group 0 example_prune_samples
   = [(3, Some 2, True), (1, None, False), (0, None, False), (4, Some 2, True)]"
  by (simp add: beam_ranking_def example_defs sequence_defs processor_defs Let_def)

lemma example_prune_members:
  "map_sum id (\<lambda>(st', g'). seq_ids g')
     (process_sequence_group_samples example_env example_prune_state example_prune_group 0
        example_prune_samples)
   = Inr [1, 2, 3]"
  by (simp add: example_defs sequence_defs processor_defs Let_def)

text \<open>
  C6: in the beam-search branch, for a group whose member ids are distinct and drawn
  from the engine's counter, the sorted list \<^verbatim>\<open>all_finished_seqs\<close> is the list
  \<^verbatim>\<open>existing_finished_seqs + new_finished_seqs\<close> ranked by score descending, ties by
  insertion order and then by \<^verbatim>\<open>seq_id\<close>. When processing returns, every newly finished
  sequence in \<^verbatim>\<open>all_finished_seqs[:beam_width]\<close> is a member of the group, and no
  sequence in \<^verbatim>\<open>all_finished_seqs[beam_width:]\<close> is one: a newly finished child there
  has not been added (a parent that continued itself has been removed), and a sequence
  finished before the step has been removed.
\<close>

theorem beam_ranking_and_selection:
  assumes "use_beam_search (sampling_params g)"
    and "distinct (seq_ids g)"
    and "\<forall>i \<in> set (seq_ids g). i < seq_counter st"
    and "process_sequence_group_samples env st g chunk samples = Inr (st', g')"
  shows "beam_ranking env st g chunk samples
           = ranked_by_spec (beam_entry_score env st g chunk samples)
               (beam_candidates env st g chunk samples)
    \<and> (\<forall>(s, p, is_new) \<in> set (slice_to (best_of (sampling_params g))
                                 (beam_ranking env st g chunk samples)).
          is_new \<longrightarrow> s \<in> set (seq_ids g'))
    \<and> (\<forall>(s, p, is_new) \<in> set (slice_from (best_of (sampling_params g))
                                 (beam_ranking env st g chunk samples)).
          s \<notin> set (seq_ids g'))"
proof -
  obtain st2 g1 cs where ac: "apply_and_check env st g chunk samples = (st2, g1, cs)"
    by (cases "apply_and_check env st g chunk samples")
  note facts = apply_and_check_facts[OF ac assms(2,3)]
  from assms(1,4) ac have
    bb: "beam_branch env st2 g1 (get_finished_seqs st g) cs = Inr (st', g')"
    by (simp add: process_sequence_group_samples_def Let_def split: if_splits)
  have rank: "beam_ranking env st g chunk samples
      = all_finished_seqs env st2 (length_penalty (sampling_params g1))
          (get_finished_seqs st g) cs"
    by (simp add: beam_ranking_def ac)
  have "beam_ranking env st g chunk samples
           = ranked_by_spec (beam_entry_score env st g chunk samples)
               (beam_candidates env st g chunk samples)"
    by (simp add: beam_ranking_def beam_entry_score_def beam_candidates_def ac
        all_finished_seqs_def ranked_by_spec_sort_desc)
  moreover have "s \<in> set (seq_ids g')"
    if "(s, p, True) \<in> set (slice_to (best_of (sampling_params g))
                               (beam_ranking env st g chunk samples))" for s p
    using beam_branch_members(1)[OF bb facts(1,2)] that by (simp add: rank facts(3))
  moreover have "s \<notin> set (seq_ids g')"
    if "(s, p, b) \<in> set (slice_from (best_of (sampling_params g))
                            (beam_ranking env st g chunk samples))" for s p b
    using beam_branch_members(2)[OF bb facts(1,2)] that by (simp add: rank facts(3))
  ultimately show ?thesis by auto
qed


theorem beam_ranking_and_selection_witness:
  "use_beam_search (sampling_params example_prune_group)
   \<and> distinct (seq_ids example_prune_group)
   \<and> list_all (\<lambda>i. i < seq_counter example_prune_state) (seq_ids example_prune_group)
   \<and> process_sequence_group_samples example_env example_prune_state example_prune_group 0
        example_prune_samples
      = Inr (projr (process_sequence_group_samples example_env example_prune_state
                      example_prune_group 0 example_prune_samples))
   \<and> slice_to (best_of (sampling_params example_prune_group))
        (beam_ranking example_env example_prune_state example_prune_group 0
           example_prune_samples)
      = [(3, Some 2, True), (1, None, False)]
   \<and> slice_from (best_of (sampling_params example_prune_group))
        (beam_ranking example_env example_prune_state example_prune_group 0
           example_prune_samples)
      = [(0, None, False), (4, Some 2, True)]
   \<and> 3 \<in> set (seq_ids (snd (projr (process_sequence_group_samples example_env
                                      example_prune_state example_prune_group 0
                                      example_prune_samples))))
   \<and> 0 \<notin> set (seq_ids (snd (projr (process_sequence_group_samples example_env
                                      example_prune_state example_prune_group 0
                                      example_prune_samples))))
   \<and> 4 \<notin> set (seq_ids (snd (projr (process_sequence_group_samples example_env
                                      example_prune_state example_prune_group 0
                                      example_prune_samples))))"
proof -
  let ?r = "process_sequence_group_samples example_env example_prune_state example_prune_group 0
              example_prune_samples"
  have h1: "use_beam_search (sampling_params example_prune_group)"
    and h2: "distinct (seq_ids example_prune_group)"
    and h3: "\<forall>i \<in> set (seq_ids example_prune_group). i < seq_counter example_prune_state"
    and bw: "best_of (sampling_params example_prune_group) = 2"
    by (simp_all add: example_defs)
  from example_prune_members have r: "?r = Inr (fst (projr ?r), snd (projr ?r))"
    by (cases ?r) auto
  have top: "slice_to (best_of (sampling_params example_prune_group))
               (beam_ranking example_env example_prune_state example_prune_group 0
                  example_prune_samples)
             = [(3, Some 2, True), (1, None, False)]"
    and low: "slice_from (best_of (sampling_params example_prune_group))
               (beam_ranking example_env example_prune_state example_prune_group 0
                  example_prune_samples)
             = [(0, None, False), (4, Some 2, True)]"
    by (simp_all add: example_prune_ranking bw slice_to_def slice_from_def)
  from beam_ranking_and_selection[OF h1 h2 h3 r]
  have "3 \<in> set (seq_ids (snd (projr ?r)))" "0 \<notin> set (seq_ids (snd (projr ?r)))"
    "4 \<notin> set (seq_ids (snd (projr ?r)))"
    unfolding top low by simp_all
  with h1 h2 h3 r top low show ?thesis
    by (simp add: list_all_iff)
qed

end
